theory Spec2Isabelle
  imports Complex_Main "HOL-Library.AList" "HOL-Library.Char_ord" "HOL-Library.List_Lexorder"
    "HOL-Library.Log_Nat"
begin

section \<open>Conventions of the embedding\<close>

text \<open>
  The development embeds the scheduling utilities (\<^verbatim>\<open>classUtils\<close>), the local
  recommendation fallback of \<^verbatim>\<open>AIService\<close> and the priority rescaling of the
  class modal.

  \<^item> A JavaScript \<^verbatim>\<open>number\<close> is a rational (\<^typ>\<open>rat\<close>); there is no \<^verbatim>\<open>NaN\<close> and
    no infinity. Sums and comparisons are exact, which is what the doubles of the source
    give on counts and on whole quarters of an hour; the one-decimal rounding of the hour
    trackers is taken on the exact sum. \<^verbatim>\<open>getTopPerformingClasses\<close>, whose averages are
    arbitrary quotients, is embedded with the rounding of doubles (\<open>float64\<close>). The
    duration of a scheduled class, a string in the source that is only ever read through
    \<^verbatim>\<open>parseFloat\<close>, is held as the number \<^verbatim>\<open>parseFloat\<close> reads from it.
  \<^item> A string is a \<^typ>\<open>string\<close>; case folding covers the ASCII letters.
  \<^item> An object used as a dictionary is an association list in insertion order, which is
    the order \<^verbatim>\<open>Object.entries\<close> enumerates keys that are neither array indices nor
    names inherited from \<^verbatim>\<open>Object.prototype\<close>.
  \<^item> \<^verbatim>\<open>Array.prototype.sort\<close> with a comparator that orders its arguments consistently
    is the stable insertion sort driven by the comparator. The comparator of
    \<^verbatim>\<open>getTopPerformingClasses\<close> does not; there the order is the engine's, and the sort
    of the engine is a parameter of the embedding.
  \<^item> A \<^verbatim>\<open>TypeError\<close> raised by the source is the value \<open>Inl TypeError\<close>.
\<close>

subsection \<open>Strings\<close>

fun startsWith :: "string \<Rightarrow> string \<Rightarrow> bool" where
  "startsWith s [] = True"
| "startsWith [] (p # ps) = False"
| "startsWith (c # cs) (p # ps) = (c = p \<and> startsWith cs ps)"

text \<open>\<^verbatim>\<open>s.includes(sub)\<close>: \<open>sub\<close> occurs in \<open>s\<close> as a contiguous run.\<close>

fun str_includes :: "string \<Rightarrow> string \<Rightarrow> bool" where
  "str_includes [] sub = (sub = [])"
| "str_includes (c # cs) sub = (startsWith (c # cs) sub \<or> str_includes cs sub)"

definition lowerChar :: "char \<Rightarrow> char" where
  "lowerChar c =
     (let n = (of_char c :: nat) in if 65 \<le> n \<and> n \<le> 90 then char_of (n + 32) else c)"

definition toLowerCase :: "string \<Rightarrow> string" where
  "toLowerCase s = map lowerChar s"

text \<open>\<^verbatim>\<open>s.split(sep)\<close> for a one-character separator; the result is never empty.\<close>

fun split_on :: "char \<Rightarrow> string \<Rightarrow> string list" where
  "split_on sep [] = [[]]"
| "split_on sep (c # cs) =
     (if c = sep then [] # split_on sep cs
      else (case split_on sep cs of [] \<Rightarrow> [[c]] | w # ws \<Rightarrow> (c # w) # ws))"

fun join_with :: "string \<Rightarrow> string list \<Rightarrow> string" where
  "join_with sep [] = []"
| "join_with sep [w] = w"
| "join_with sep (w # v # ws) = w @ sep @ join_with sep (v # ws)"

definition isWhite :: "char \<Rightarrow> bool" where
  "isWhite c = ((of_char c :: nat) \<in> {9, 10, 11, 12, 13, 32, 160})"

text \<open>\<^verbatim>\<open>s.trim() === ''\<close>\<close>

definition trimIsEmpty :: "string \<Rightarrow> bool" where
  "trimIsEmpty s = list_all isWhite s"

definition digitOf :: "nat \<Rightarrow> char \<Rightarrow> nat option" where
  "digitOf radix c =
     (let n = (of_char c :: nat);
          d = (if 48 \<le> n \<and> n \<le> 57 then Some (n - 48)
               else if 97 \<le> n \<and> n \<le> 102 then Some (n - 87)
               else if 65 \<le> n \<and> n \<le> 70 then Some (n - 55)
               else None)
      in case d of None \<Rightarrow> None | Some v \<Rightarrow> if v < radix then Some v else None)"

fun readDigits :: "nat \<Rightarrow> string \<Rightarrow> nat list" where
  "readDigits radix [] = []"
| "readDigits radix (c # cs) =
     (case digitOf radix c of None \<Rightarrow> [] | Some d \<Rightarrow> d # readDigits radix cs)"

text \<open>
  \<^verbatim>\<open>parseInt(s)\<close> without a radix: leading white space, a sign, a \<^verbatim>\<open>0x\<close> prefix, then
  the longest run of digits; \<open>None\<close> is \<^verbatim>\<open>NaN\<close>.
\<close>

definition parseInt :: "string \<Rightarrow> int option" where
  "parseInt s =
     (let s1 = dropWhile isWhite s;
          neg = startsWith s1 ''-'';
          s2 = (if startsWith s1 ''-'' \<or> startsWith s1 ''+'' then tl s1 else s1);
          hex = (startsWith s2 ''0x'' \<or> startsWith s2 ''0X'');
          radix = (if hex then 16 else 10);
          ds = readDigits radix (if hex then drop 2 s2 else s2)
      in if ds = [] then None
         else Some ((if neg then - 1 else 1) * int (foldl (\<lambda>a d. a * radix + d) 0 ds)))"

definition digitChar :: "nat \<Rightarrow> char" where
  "digitChar n = ''0123456789'' ! (n mod 10)"

fun natStr :: "nat \<Rightarrow> string" where
  "natStr n = (if n < 10 then [digitChar n] else natStr (n div 10) @ [digitChar (n mod 10)])"

declare natStr.simps [simp del]

subsection \<open>Numbers\<close>

text \<open>\<^verbatim>\<open>Math.round\<close>: the nearest integer, a tie going up.\<close>

definition mathRound :: "rat \<Rightarrow> int" where
  "mathRound x = \<lfloor>x + 1 / 2\<rfloor>"

definition mathCeil :: "rat \<Rightarrow> int" where
  "mathCeil x = \<lceil>x\<rceil>"

text \<open>
  \<^verbatim>\<open>x.toFixed(1)\<close>: the sign, then the magnitude rounded to tenths, a tie going to the
  larger magnitude; \<open>tenths\<close> is that magnitude in tenths.
\<close>

definition tenths :: "rat \<Rightarrow> nat" where
  "tenths x = nat \<lfloor>\<bar>x\<bar> * 10 + 1 / 2\<rfloor>"

definition toFixed1 :: "rat \<Rightarrow> string" where
  "toFixed1 x =
     (if x < 0 then ''-'' else '''') @ natStr (tenths x div 10) @ ''.'' @ natStr (tenths x mod 10)"

text \<open>\<^verbatim>\<open>parseFloat(x.toFixed(1))\<close>\<close>

definition round1 :: "rat \<Rightarrow> rat" where
  "round1 x = (if x < 0 then - 1 else 1) * of_nat (tenths x) / 10"

text \<open>
  The double nearest to a rational, a tie going to the even mantissa: 53 bits of mantissa
  above the exponent \<open>-1022\<close>, the fixed spacing of the subnormal numbers below it. The
  largest exponent is not modelled (no overflow to infinity). \<open>binaryExponent x\<close> is the
  integer \<open>e\<close> with \<open>2\<^sup>e \<le> \<bar>x\<bar> < 2\<^sup>e\<^sup>+\<^sup>1\<close>.
\<close>

definition binaryExponent :: "rat \<Rightarrow> int" where
  "binaryExponent x =
     (let p = fst (quotient_of \<bar>x\<bar>); q = snd (quotient_of \<bar>x\<bar>); e = bitlen p - bitlen q
      in if 2 powi e \<le> \<bar>x\<bar> then e else e - 1)"

definition roundHalfEven :: "rat \<Rightarrow> int" where
  "roundHalfEven x =
     (let n = \<lfloor>x\<rfloor>; r = x - of_int n
      in if r < 1 / 2 then n else if r > 1 / 2 then n + 1 else if even n then n else n + 1)"

definition float64 :: "rat \<Rightarrow> rat" where
  "float64 x =
     (if x = 0 then 0
      else let ulp = 2 powi (max (binaryExponent x) (- 1022) - 52)
           in of_int (roundHalfEven (x / ulp)) * ulp)"

subsection \<open>Dictionaries and sorting\<close>

text \<open>
  \<^verbatim>\<open>if (!acc[k]) acc[k] = init; acc[k] = f(acc[k])\<close>: a new key goes to the end, an
  old one keeps its place.
\<close>

fun upsert :: "'k \<Rightarrow> 'v \<Rightarrow> ('v \<Rightarrow> 'v) \<Rightarrow> ('k \<times> 'v) list \<Rightarrow> ('k \<times> 'v) list" where
  "upsert k init f [] = [(k, f init)]"
| "upsert k init f ((k', v) # rest) =
     (if k = k' then (k', f v) # rest else (k', v) # upsert k init f rest)"

fun js_insert :: "('a \<Rightarrow> 'a \<Rightarrow> rat) \<Rightarrow> 'a \<Rightarrow> 'a list \<Rightarrow> 'a list" where
  "js_insert cmp x [] = [x]"
| "js_insert cmp x (y # ys) = (if cmp x y < 0 then x # y # ys else y # js_insert cmp x ys)"

definition js_sort :: "('a \<Rightarrow> 'a \<Rightarrow> rat) \<Rightarrow> 'a list \<Rightarrow> 'a list" where
  "js_sort cmp xs = foldl (\<lambda>acc x. js_insert cmp x acc) [] xs"

text \<open>\<^verbatim>\<open>xs.findIndex(p)\<close>; \<open>None\<close> is \<open>-1\<close>.\<close>

fun findIndex :: "('a \<Rightarrow> bool) \<Rightarrow> 'a list \<Rightarrow> nat option" where
  "findIndex p [] = None"
| "findIndex p (x # xs) = (if p x then Some 0 else map_option Suc (findIndex p xs))"

subsection \<open>Data\<close>

text \<open>The fields of \<^verbatim>\<open>ClassData\<close> that the embedded functions read.\<close>

record ClassData =
  cd_location :: string
  cd_totalRevenue :: rat
  cd_participants :: rat
  cd_teacherName :: string
  cd_dayOfWeek :: string
  cd_classTime :: string
  cd_cleanedClass :: string

record ScheduledClass =
  sc_id :: string
  sc_day :: string
  sc_time :: string
  sc_location :: string
  sc_classFormat :: string
  sc_teacherFirstName :: string
  sc_teacherLastName :: string
  sc_duration :: rat
  sc_participants :: "rat option"
  sc_revenue :: "rat option"
  sc_isTopPerformer :: "bool option"
  sc_isLocked :: "bool option"
  sc_isPrivate :: "bool option"
  sc_coverTeacher :: "string option"

record AIProvider =
  ap_name :: string
  ap_key :: string
  ap_endpoint :: string

record AIRecommendation =
  rec_classFormat :: string
  rec_teacher :: string
  rec_reasoning :: string
  rec_confidence :: rat
  rec_expectedParticipants :: rat
  rec_expectedRevenue :: rat
  rec_priority :: rat

text \<open>\<^verbatim>\<open>`${cls.teacherFirstName} ${cls.teacherLastName}`\<close>\<close>

definition fullName :: "ScheduledClass \<Rightarrow> string" where
  "fullName cls = sc_teacherFirstName cls @ '' '' @ sc_teacherLastName cls"

section \<open>The recommendation service\<close>

record ClassPerf =
  cp_classFormat :: string
  cp_avgParticipants :: rat
  cp_avgRevenue :: rat
  cp_frequency :: nat

definition classStats :: "ClassData list \<Rightarrow> (string \<times> rat \<times> rat \<times> nat) list" where
  "classStats data =
     foldl (\<lambda>acc item.
        upsert (cd_cleanedClass item) (0, 0, 0)
          (\<lambda>(p, r, n). (p + cd_participants item, r + cd_totalRevenue item, n + 1)) acc)
       [] data"

definition analyzeClassPerformance :: "ClassData list \<Rightarrow> ClassPerf list" where
  "analyzeClassPerformance data =
     js_sort (\<lambda>a b. cp_avgParticipants b - cp_avgParticipants a)
       (map (\<lambda>(classFormat, p, r, n).
               \<lparr>cp_classFormat = classFormat,
                cp_avgParticipants = p / of_nat n,
                cp_avgRevenue = r / of_nat n,
                cp_frequency = n\<rparr>)
          (classStats data))"

definition fallbackRec :: "ClassPerf \<Rightarrow> nat \<Rightarrow> AIRecommendation" where
  "fallbackRec stats index =
     \<lparr>rec_classFormat = cp_classFormat stats,
      rec_teacher = ''Best Available'',
      rec_reasoning = ''High-performing class with '' @ toFixed1 (cp_avgParticipants stats)
         @ '' average participants (based on historical data)'',
      rec_confidence = min (9 / 10) (of_nat (cp_frequency stats) / 10),
      rec_expectedParticipants = of_int (mathRound (cp_avgParticipants stats)),
      rec_expectedRevenue = of_int (mathRound (cp_avgRevenue stats)),
      rec_priority = 10 - of_nat index * 2\<rparr>"

definition getFallbackRecommendations ::
  "ClassData list \<Rightarrow> string \<Rightarrow> string \<Rightarrow> string \<Rightarrow> AIRecommendation list" where
  "getFallbackRecommendations data location day time =
     (let locationData = filter (\<lambda>item. cd_location item = location) data;
          classStats = analyzeClassPerformance locationData;
          finalStats = (if length locationData > 0 then classStats
                        else analyzeClassPerformance data);
          top = take 5 finalStats
      in map (\<lambda>(stats, index). fallbackRec stats index) (zip top [0 ..< length top]))"

text \<open>
  The remote call and the parsing of its answer are outside the embedding: \<open>AIFailure\<close>
  stands for \<^verbatim>\<open>callAI\<close> throwing, \<open>AIResponse\<close> for the list \<^verbatim>\<open>parseAIResponse\<close>
  returned.
\<close>

datatype ai_outcome = AIFailure | AIResponse "AIRecommendation list"

definition providerMissing :: "AIProvider option \<Rightarrow> bool" where
  "providerMissing provider =
     (case provider of None \<Rightarrow> True | Some p \<Rightarrow> ap_key p = [] \<or> trimIsEmpty (ap_key p))"

definition generateRecommendations ::
  "AIProvider option \<Rightarrow> ai_outcome \<Rightarrow> ClassData list \<Rightarrow> string \<Rightarrow> string \<Rightarrow> string
     \<Rightarrow> AIRecommendation list" where
  "generateRecommendations provider remote historicData day time location =
     (if providerMissing provider
      then getFallbackRecommendations historicData location day time
      else
        let relevantData = filter (\<lambda>item. cd_location item = location
                \<and> cd_dayOfWeek item = day
                \<and> str_includes (cd_classTime item) (take 5 time)) historicData
        in if length relevantData = 0
           then getFallbackRecommendations historicData location day time
           else (case remote of
                   AIFailure \<Rightarrow> getFallbackRecommendations historicData location day time
                 | AIResponse recommendations \<Rightarrow>
                     js_sort (\<lambda>a b. rec_priority b - rec_priority a) recommendations))"

text \<open>The class modal puts the priorities it receives on its 1 to 5 scale.\<close>

definition scalePriority :: "rat \<Rightarrow> rat" where
  "scalePriority p = min 5 (max 1 (of_int (mathCeil (p / 2))))"

definition loadAIRecommendations :: "AIRecommendation list \<Rightarrow> AIRecommendation list" where
  "loadAIRecommendations recommendations =
     map (\<lambda>r. r\<lparr>rec_priority := scalePriority (rec_priority r)\<rparr>) recommendations"

text \<open>
  The records the fallback analyses: those of the location, or all of them when the
  location has none.
\<close>

definition analysisData :: "ClassData list \<Rightarrow> string \<Rightarrow> ClassData list" where
  "analysisData data location =
     (if filter (\<lambda>item. cd_location item = location) data \<noteq> []
      then filter (\<lambda>item. cd_location item = location) data else data)"

definition formatCount :: "string \<Rightarrow> ClassData list \<Rightarrow> nat" where
  "formatCount classFormat data = length (filter (\<lambda>item. cd_cleanedClass item = classFormat) data)"

text \<open>
  The ranking the specification describes: the records of the exact cell first, then
  those of the location, then all of them. The cell test is the one the source applies
  before it calls a remote provider.
\<close>

definition spec_cascadeData :: "ClassData list \<Rightarrow> string \<Rightarrow> string \<Rightarrow> string \<Rightarrow> ClassData list" where
  "spec_cascadeData data location day time =
     (let cell = filter (\<lambda>item. cd_location item = location \<and> cd_dayOfWeek item = day
                    \<and> str_includes (cd_classTime item) (take 5 time)) data;
          atLocation = filter (\<lambda>item. cd_location item = location) data
      in if cell \<noteq> [] then cell else if atLocation \<noteq> [] then atLocation else data)"

definition spec_rank :: "ClassData list \<Rightarrow> string \<Rightarrow> string \<Rightarrow> string \<Rightarrow> AIRecommendation list" where
  "spec_rank data location day time =
     (let top = take 5 (analyzeClassPerformance (spec_cascadeData data location day time))
      in map (\<lambda>(stats, index). fallbackRec stats index) (zip top [0 ..< length top]))"

section \<open>Weekly hours of a teacher\<close>

definition newTrainers :: "string list" where
  "newTrainers = [''Kabir'', ''Simonelle'']"

definition isNewTrainer :: "string \<Rightarrow> bool" where
  "isNewTrainer teacherName = list_ex (\<lambda>name. str_includes teacherName name) newTrainers"

definition maxWeeklyHours :: "string \<Rightarrow> nat" where
  "maxWeeklyHours teacherName = (if isNewTrainer teacherName then 10 else 15)"





text \<open>The hours a schedule gives to a teacher, by full name.\<close>

definition scheduledHours :: "ScheduledClass list \<Rightarrow> string \<Rightarrow> rat" where
  "scheduledHours scheduledClasses teacherName =
     sum_list (map sc_duration (filter (\<lambda>cls. fullName cls = teacherName) scheduledClasses))"

section \<open>Business rules\<close>

text \<open>\<^verbatim>\<open>getClassDuration\<close> returns the strings \<^verbatim>\<open>'0.75'\<close>, \<^verbatim>\<open>'0.5'\<close> and \<^verbatim>\<open>'1'\<close>; the
  embedding returns the hours they denote.\<close>

definition getClassDuration :: "string \<Rightarrow> rat" where
  "getClassDuration className =
     (let lowerName = toLowerCase className
      in if str_includes lowerName ''express'' then 3 / 4
         else if str_includes lowerName ''recovery'' \<or> str_includes lowerName ''sweat in 30''
         then 1 / 2
         else 1)"

definition isHostedClass :: "string \<Rightarrow> bool" where
  "isHostedClass className = str_includes (toLowerCase className) ''hosted''"

definition isClassAllowedAtLocation :: "string \<Rightarrow> string \<Rightarrow> bool" where
  "isClassAllowedAtLocation classFormat location =
     (let lowerFormat = toLowerCase classFormat
      in if location = ''Supreme HQ, Bandra''
         then (if str_includes lowerFormat ''amped up'' \<or> str_includes lowerFormat ''hiit''
               then False else True)
         else (if str_includes lowerFormat ''powercycle'' \<or> str_includes lowerFormat ''power cycle''
               then False else True))"

definition getAvailableTimeSlots :: "string \<Rightarrow> string list" where
  "getAvailableTimeSlots day =
     (let morningSlots = [''07:30'', ''08:00'', ''08:30'', ''09:00'', ''09:30'', ''10:00'',
                          ''10:30'', ''11:00'', ''11:30''];
          eveningSlots = [''17:00'', ''17:30'', ''18:00'', ''18:30'', ''19:00'', ''19:30'']
      in morningSlots @ eveningSlots)"

text \<open>\<^verbatim>\<open>parseInt(time.split(':')[0])\<close>\<close>

definition hourOf :: "string \<Rightarrow> int option" where
  "hourOf time = (case split_on (CHR '':'') time of [] \<Rightarrow> None | h # _ \<Rightarrow> parseInt h)"

definition isMorningSlot :: "string \<Rightarrow> bool" where
  "isMorningSlot time = (case hourOf time of None \<Rightarrow> False | Some hour \<Rightarrow> hour < 12)"

definition isEveningSlot :: "string \<Rightarrow> bool" where
  "isEveningSlot time = (case hourOf time of None \<Rightarrow> False | Some hour \<Rightarrow> hour \<ge> 17)"

definition isPeakHour :: "string \<Rightarrow> bool" where
  "isPeakHour time =
     (case hourOf time of None \<Rightarrow> False
      | Some hour \<Rightarrow> (hour \<ge> 7 \<and> hour \<le> 11) \<or> (hour \<ge> 17 \<and> hour \<le> 19))"

definition getShiftBalance :: "ScheduledClass list \<Rightarrow> string \<Rightarrow> string \<Rightarrow> nat \<times> nat" where
  "getShiftBalance scheduledClasses location day =
     (let dayClasses = filter (\<lambda>cls. sc_location cls = location \<and> sc_day cls = day) scheduledClasses;
          morning = length (filter (\<lambda>cls. isMorningSlot (sc_time cls)) dayClasses);
          evening = length (filter (\<lambda>cls. isEveningSlot (sc_time cls)) dayClasses)
      in (morning, evening))"

record Guidelines =
  g_focus :: string
  g_avoid :: "string list"
  g_priority :: "string list"

definition getDayGuidelines :: "string \<Rightarrow> Guidelines" where
  "getDayGuidelines day =
     (if day = ''Monday'' then
        \<lparr>g_focus = ''Strong start with high-demand formats & senior trainers'',
         g_avoid = [''Studio Recovery''],
         g_priority = [''Studio Barre 57'', ''Studio FIT'', ''Studio powerCycle'', ''Studio Mat 57'']\<rparr>
      else if day = ''Tuesday'' then
        \<lparr>g_focus = ''Balance beginner & intermediate classes'',
         g_avoid = [''Studio HIIT'', ''Studio Amped Up!''],
         g_priority = [''Studio Barre 57'', ''Studio Mat 57'', ''Studio Foundations'',
                       ''Studio Cardio Barre'']\<rparr>
      else if day = ''Wednesday'' then
        \<lparr>g_focus = ''Midweek peak - repeat Monday'' @ [CHR 0x27] @ ''s popular formats'',
         g_avoid = [],
         g_priority = [''Studio Barre 57'', ''Studio FIT'', ''Studio powerCycle'', ''Studio Mat 57'']\<rparr>
      else if day = ''Thursday'' then
        \<lparr>g_focus = ''Lighter mix with recovery formats'',
         g_avoid = [],
         g_priority = [''Studio Recovery'', ''Studio Mat 57'', ''Studio Cardio Barre'',
                       ''Studio Back Body Blaze'']\<rparr>
      else if day = ''Friday'' then
        \<lparr>g_focus = ''Energy-focused with HIIT/Advanced classes'',
         g_avoid = [],
         g_priority = [''Studio HIIT'', ''Studio Amped Up!'', ''Studio FIT'', ''Studio Cardio Barre'']\<rparr>
      else if day = ''Saturday'' then
        \<lparr>g_focus = ''Family-friendly & community formats'',
         g_avoid = [''Studio HIIT''],
         g_priority = [''Studio Barre 57'', ''Studio Foundations'', ''Studio Recovery'',
                       ''Studio Mat 57'']\<rparr>
      else if day = ''Sunday'' then
        \<lparr>g_focus = ''Max 4-5 classes, highest scoring formats only'',
         g_avoid = [''Studio HIIT'', ''Studio Amped Up!''],
         g_priority = [''Studio Barre 57'', ''Studio Recovery'', ''Studio Mat 57'']\<rparr>
      else \<lparr>g_focus = [], g_avoid = [], g_priority = []\<rparr>)"

record DefaultClass =
  dc_classFormat :: string
  dc_day :: string
  dc_time :: string
  dc_location :: string
  dc_teacher :: string
  dc_avgParticipants :: rat
  dc_isLocked :: bool

definition lockedClass ::
  "string \<Rightarrow> string \<Rightarrow> string \<Rightarrow> string \<Rightarrow> string \<Rightarrow> rat \<Rightarrow> DefaultClass" where
  "lockedClass classFormat day time location teacher avgParticipants =
     \<lparr>dc_classFormat = classFormat, dc_day = day, dc_time = time, dc_location = location,
      dc_teacher = teacher, dc_avgParticipants = avgParticipants, dc_isLocked = True\<rparr>"

definition getDefaultTopClasses :: "DefaultClass list" where
  "getDefaultTopClasses =
     [lockedClass ''Studio Mat 57'' ''Saturday'' ''10:15'' ''Kwality House, Kemps Corner''
        ''Karanvir Bhatia'' 25,
      lockedClass ''Studio FIT'' ''Tuesday'' ''19:15'' ''Kwality House, Kemps Corner''
        ''Anisha Shah'' (919 / 100),
      lockedClass ''Studio Mat 57'' ''Wednesday'' ''19:15'' ''Kwality House, Kemps Corner''
        ''Karanvir Bhatia'' (935 / 100),
      lockedClass ''Studio FIT'' ''Friday'' ''09:00'' ''Kwality House, Kemps Corner''
        ''Anisha Shah'' (1108 / 100),
      lockedClass ''Studio Back Body Blaze'' ''Wednesday'' ''09:00'' ''Kwality House, Kemps Corner''
        ''Anisha Shah'' (1058 / 100),
      lockedClass ''Studio Barre 57'' ''Sunday'' ''11:30'' ''Kwality House, Kemps Corner''
        ''Rohan Dahima'' (98 / 10),
      lockedClass ''Studio Mat 57'' ''Monday'' ''08:30'' ''Kwality House, Kemps Corner''
        ''Anisha Shah'' (1054 / 100),
      lockedClass ''Studio Barre 57'' ''Monday'' ''18:45'' ''Kwality House, Kemps Corner''
        ''Pranjali Jain'' (865 / 100),
      lockedClass ''Studio powerCycle'' ''Sunday'' ''10:00'' ''Supreme HQ, Bandra''
        ''Cauveri Vikrant'' (85 / 10),
      lockedClass ''Studio Mat 57'' ''Tuesday'' ''11:00'' ''Kwality House, Kemps Corner''
        ''Atulan Purohit'' (862 / 100)]"

definition seniorTrainers :: "string list" where
  "seniorTrainers = [''Anisha'', ''Vivaran'', ''Mrigakshi'', ''Pranjali'', ''Atulan'', ''Cauveri'',
                     ''Rohan'']"

definition advancedFormats :: "string list" where
  "advancedFormats = [''Studio HIIT'', ''Studio Amped Up!'']"

definition locations :: "string list" where
  "locations = [''Kwality House, Kemps Corner'', ''Supreme HQ, Bandra'', ''Kenkere House'']"

definition weekDays :: "string list" where
  "weekDays = [''Monday'', ''Tuesday'', ''Wednesday'', ''Thursday'', ''Friday'', ''Saturday'',
               ''Sunday'']"

definition maxParallel :: "string \<Rightarrow> nat" where
  "maxParallel location = (if location = ''Supreme HQ, Bandra'' then 3 else 2)"

text \<open>The teachers no pool may hold.\<close>

definition excludedTeacher :: "string \<Rightarrow> bool" where
  "excludedTeacher teacher = (str_includes teacher ''Nishanth'' \<or> str_includes teacher ''Saniya'')"

text \<open>\<^verbatim>\<open>[...new Set(xs)]\<close>: the first occurrence of each element, in order.\<close>

definition uniq :: "'a list \<Rightarrow> 'a list" where
  "uniq xs = foldl (\<lambda>acc x. if x \<in> set acc then acc else acc @ [x]) [] xs"

section \<open>Statistics over the historic records\<close>

definition getBestTeacherForClass ::
  "ClassData list \<Rightarrow> string \<Rightarrow> string \<Rightarrow> string \<Rightarrow> string \<Rightarrow> string option" where
  "getBestTeacherForClass csvData classFormat location day time =
     (case find (\<lambda>cls. dc_classFormat cls = classFormat \<and> dc_location cls = location
                    \<and> dc_day cls = day \<and> dc_time cls = time) getDefaultTopClasses of
        Some defaultClass \<Rightarrow> Some (dc_teacher defaultClass)
      | None \<Rightarrow>
         let relevantClasses = filter (\<lambda>item. cd_cleanedClass item = classFormat
                \<and> cd_location item = location
                \<and> cd_dayOfWeek item = day
                \<and> str_includes (cd_classTime item) time
                \<and> \<not> isHostedClass (cd_cleanedClass item)
                \<and> \<not> str_includes (cd_teacherName item) ''Nishanth''
                \<and> \<not> str_includes (cd_teacherName item) ''Saniya'') csvData
         in if length relevantClasses = 0 then None
            else
              let teacherStats = foldl (\<lambda>acc item.
                      upsert (cd_teacherName item) (0, 0)
                        (\<lambda>(p, n). (p + cd_participants item, n + (1::nat))) acc)
                    [] relevantClasses;
                  ranked = js_sort (\<lambda>a b. snd b - snd a)
                     (map (\<lambda>(teacher, p, n). (teacher, p / of_nat n)) teacherStats)
              in (case ranked of [] \<Rightarrow> None
                  | bestTeacher # _ \<Rightarrow> if fst bestTeacher = [] then None
                                        else Some (fst bestTeacher)))"

text \<open>\<^verbatim>\<open>getClassAverageForSlot\<close> without its optional teacher: average and count.\<close>

definition getClassAverageForSlot ::
  "ClassData list \<Rightarrow> string \<Rightarrow> string \<Rightarrow> string \<Rightarrow> string \<Rightarrow> rat \<times> nat" where
  "getClassAverageForSlot csvData classFormat location day time =
     (let relevantClasses = filter (\<lambda>item. cd_cleanedClass item = classFormat
                \<and> cd_location item = location
                \<and> cd_dayOfWeek item = day
                \<and> str_includes (cd_classTime item) time
                \<and> \<not> isHostedClass (cd_cleanedClass item)) csvData
      in if length relevantClasses = 0 then (0, 0)
         else
           let totalParticipants = foldl (\<lambda>sum item. sum + cd_participants item) 0 relevantClasses
           in (round1 (totalParticipants / of_nat (length relevantClasses)), length relevantClasses))"

record Specialty =
  sp_classFormat :: string
  sp_avgParticipants :: rat
  sp_classCount :: nat

definition getTeacherSpecialties :: "ClassData list \<Rightarrow> (string \<times> Specialty list) list" where
  "getTeacherSpecialties csvData =
     (let teacherStats = foldl (\<lambda>acc item.
             if isHostedClass (cd_cleanedClass item) then acc
             else if str_includes (cd_teacherName item) ''Nishanth''
                     \<or> str_includes (cd_teacherName item) ''Saniya'' then acc
             else upsert (cd_teacherName item) []
                    (upsert (cd_cleanedClass item) (0, 0)
                       (\<lambda>(p, n). (p + cd_participants item, n + (1::nat)))) acc)
           [] csvData
      in map (\<lambda>(teacher, classes).
            (teacher,
             take 5 (js_sort (\<lambda>a b. if sp_classCount b \<noteq> sp_classCount a
                                    then of_nat (sp_classCount b) - of_nat (sp_classCount a)
                                    else sp_avgParticipants b - sp_avgParticipants a)
               (map (\<lambda>(classFormat, p, n).
                      \<lparr>sp_classFormat = classFormat,
                       sp_avgParticipants = round1 (p / of_nat n),
                       sp_classCount = n\<rparr>) classes))))
          teacherStats)"

record TopPerformingClass =
  tp_classFormat :: string
  tp_location :: string
  tp_day :: string
  tp_time :: string
  tp_teacher :: string
  tp_avgParticipants :: rat
  tp_avgRevenue :: rat
  tp_frequency :: nat

record ClassGroup =
  cg_classFormat :: string
  cg_location :: string
  cg_day :: string
  cg_time :: string
  cg_teacher :: string
  cg_totalParticipants :: rat
  cg_totalRevenue :: rat
  cg_count :: nat

definition groupKey :: "bool \<Rightarrow> ClassData \<Rightarrow> string" where
  "groupKey includeTeacher item =
     (if includeTeacher
      then cd_cleanedClass item @ ''-'' @ cd_location item @ ''-'' @ cd_dayOfWeek item @ ''-''
             @ take 5 (cd_classTime item) @ ''-'' @ cd_teacherName item
      else cd_cleanedClass item @ ''-'' @ cd_location item @ ''-'' @ cd_dayOfWeek item @ ''-''
             @ take 5 (cd_classTime item))"

text \<open>The three \<^verbatim>\<open>+=\<close> of one record on the totals of its group, in doubles.\<close>

definition addToGroup :: "ClassData \<Rightarrow> ClassGroup \<Rightarrow> ClassGroup" where
  "addToGroup item g =
     g\<lparr>cg_totalParticipants := float64 (cg_totalParticipants g + cd_participants item),
       cg_totalRevenue := float64 (cg_totalRevenue g + cd_totalRevenue item),
       cg_count := cg_count g + 1\<rparr>"

definition classGroups :: "bool \<Rightarrow> ClassData list \<Rightarrow> (string \<times> ClassGroup) list" where
  "classGroups includeTeacher validClasses =
     foldl (\<lambda>acc item.
        upsert (groupKey includeTeacher item)
          \<lparr>cg_classFormat = cd_cleanedClass item, cg_location = cd_location item,
           cg_day = cd_dayOfWeek item, cg_time = take 5 (cd_classTime item),
           cg_teacher = (if includeTeacher then cd_teacherName item else []),
           cg_totalParticipants = 0, cg_totalRevenue = 0, cg_count = 0\<rparr>
          (addToGroup item) acc)
       [] validClasses"

definition topCompare :: "TopPerformingClass \<Rightarrow> TopPerformingClass \<Rightarrow> rat" where
  "topCompare a b =
     (let participantDiff = float64 (tp_avgParticipants b - tp_avgParticipants a)
      in if \<bar>participantDiff\<bar> > 1 then participantDiff
         else of_nat (tp_frequency b) - of_nat (tp_frequency a))"

definition sameSlot :: "TopPerformingClass \<Rightarrow> TopPerformingClass \<Rightarrow> bool" where
  "sameSlot cls c = (tp_classFormat c = tp_classFormat cls \<and> tp_location c = tp_location cls
       \<and> tp_day c = tp_day cls \<and> tp_time c = tp_time cls)"

definition validClasses :: "ClassData list \<Rightarrow> ClassData list" where
  "validClasses csvData =
     filter (\<lambda>item. \<not> isHostedClass (cd_cleanedClass item)
              \<and> isClassAllowedAtLocation (cd_cleanedClass item) (cd_location item)) csvData"

definition groupStat :: "ClassGroup \<Rightarrow> TopPerformingClass" where
  "groupStat g =
     \<lparr>tp_classFormat = cg_classFormat g, tp_location = cg_location g,
      tp_day = cg_day g, tp_time = cg_time g, tp_teacher = cg_teacher g,
      tp_avgParticipants =
        float64 (round1 (float64 (cg_totalParticipants g / of_nat (cg_count g)))),
      tp_avgRevenue = float64 (round1 (float64 (cg_totalRevenue g / of_nat (cg_count g)))),
      tp_frequency = cg_count g\<rparr>"

text \<open>
  The comparator \<open>topCompare\<close> is not a consistent comparison function (a difference of
  at most 1 counts as a tie, and ties are not transitive), so ECMAScript leaves the order
  that \<^verbatim>\<open>sort\<close> returns to the engine. \<open>arraySort\<close> is the sort of the engine that runs the
  code.
\<close>

definition computedTopClasses ::
  "((TopPerformingClass \<Rightarrow> TopPerformingClass \<Rightarrow> rat) \<Rightarrow> TopPerformingClass list
      \<Rightarrow> TopPerformingClass list)
     \<Rightarrow> ClassData list \<Rightarrow> rat \<Rightarrow> bool \<Rightarrow> TopPerformingClass list" where
  "computedTopClasses arraySort csvData minAverage includeTeacher =
     arraySort topCompare
       (filter (\<lambda>cls. tp_frequency cls \<ge> 2 \<and> tp_avgParticipants cls \<ge> minAverage)
          (map (\<lambda>(key, g). groupStat g) (classGroups includeTeacher (validClasses csvData))))"

definition defaultTopClasses :: "TopPerformingClass list" where
  "defaultTopClasses =
     map (\<lambda>cls. \<lparr>tp_classFormat = dc_classFormat cls, tp_location = dc_location cls,
                  tp_day = dc_day cls, tp_time = dc_time cls, tp_teacher = dc_teacher cls,
                  tp_avgParticipants = dc_avgParticipants cls, tp_avgRevenue = 0,
                  tp_frequency = 10\<rparr>) getDefaultTopClasses"

definition getTopPerformingClasses ::
  "((TopPerformingClass \<Rightarrow> TopPerformingClass \<Rightarrow> rat) \<Rightarrow> TopPerformingClass list
      \<Rightarrow> TopPerformingClass list)
     \<Rightarrow> ClassData list \<Rightarrow> rat \<Rightarrow> bool \<Rightarrow> TopPerformingClass list" where
  "getTopPerformingClasses arraySort csvData minAverage includeTeacher =
     (let topClasses = computedTopClasses arraySort csvData minAverage includeTeacher;
          allTopClasses = defaultTopClasses @ topClasses
      in map snd (filter (\<lambda>(index, cls). findIndex (sameSlot cls) allTopClasses = Some index)
                    (zip [0 ..< length allTopClasses] allTopClasses)))"

record CustomTeacher =
  ct_firstName :: string
  ct_lastName :: string

definition getUniqueTeachers :: "ClassData list \<Rightarrow> CustomTeacher list \<Rightarrow> string list" where
  "getUniqueTeachers csvData customTeachers =
     (let csvTeachers = filter (\<lambda>teacher. \<not> str_includes teacher ''Nishanth''
                \<and> \<not> str_includes teacher ''Saniya'') (map cd_teacherName csvData);
          customTeacherNames = map (\<lambda>t. ct_firstName t @ '' '' @ ct_lastName t) customTeachers
      in sort (uniq (csvTeachers @ customTeacherNames)))"

section \<open>The schedule generator\<close>

subsection \<open>Errors and loops\<close>

text \<open>
  \<open>TypeError\<close> is the exception the source raises when it reads a property of
  \<^verbatim>\<open>undefined\<close>. \<open>NotANumber\<close> marks the one place where the source would store
  \<^verbatim>\<open>NaN\<close> in a tracker (an update of a missing entry), which a rational cannot hold.
\<close>

datatype js_error = TypeError | NotANumber

definition bindE :: "js_error + 'a \<Rightarrow> ('a \<Rightarrow> js_error + 'b) \<Rightarrow> js_error + 'b" where
  "bindE m f = (case m of Inl e \<Rightarrow> Inl e | Inr x \<Rightarrow> f x)"

text \<open>
  A \<^verbatim>\<open>for ... of\<close> loop whose body may \<^verbatim>\<open>break\<close>: the body returns the new state and
  whether the loop stops; an exception ends everything.
\<close>

fun forBreak :: "('a \<Rightarrow> 's \<Rightarrow> js_error + bool \<times> 's) \<Rightarrow> 'a list \<Rightarrow> 's \<Rightarrow> js_error + 's" where
  "forBreak body [] s = Inr s"
| "forBreak body (x # xs) s =
     (case body x s of
        Inl e \<Rightarrow> Inl e
      | Inr (stop, s') \<Rightarrow> if stop then Inr s' else forBreak body xs s')"

definition carryOn :: "'s \<Rightarrow> js_error + bool \<times> 's" where
  "carryOn s = Inr (False, s)"

definition breakLoop :: "'s \<Rightarrow> js_error + bool \<times> 's" where
  "breakLoop s = Inr (True, s)"

text \<open>\<^verbatim>\<open>xs.find(p)\<close> for a predicate that may raise.\<close>

fun findM :: "('a \<Rightarrow> js_error + bool) \<Rightarrow> 'a list \<Rightarrow> js_error + 'a option" where
  "findM p [] = Inr None"
| "findM p (x # xs) =
     (case p x of Inl e \<Rightarrow> Inl e | Inr b \<Rightarrow> if b then Inr (Some x) else findM p xs)"

text \<open>A filtered array shares its objects with the array it came from: the embedding
  keeps the positions of those objects and reads them from the current list.\<close>

definition indicesWhere :: "('a \<Rightarrow> bool) \<Rightarrow> 'a list \<Rightarrow> nat list" where
  "indicesWhere p xs = filter (\<lambda>i. p (xs ! i)) [0 ..< length xs]"

subsection \<open>The state of a run\<close>

record SchedState =
  optimizedClasses :: "ScheduledClass list"
  teacherHoursTracker :: "(string \<times> rat) list"
  teacherDailyHours :: "(string \<times> (string \<times> rat) list) list"
  teacherShiftAssignments :: "(string \<times> (string \<times> bool \<times> bool) list) list"
  issued :: nat

text \<open>Only \<^verbatim>\<open>targetDay\<close> is ever read from the options; an empty string counts as
  absent.\<close>

record Options =
  opt_targetDay :: "string option"

definition targetDayOf :: "Options \<Rightarrow> string option" where
  "targetDayOf options =
     (case opt_targetDay options of None \<Rightarrow> None | Some d \<Rightarrow> if d = [] then None else Some d)"

definition daysOf :: "Options \<Rightarrow> string list" where
  "daysOf options = (case targetDayOf options of Some d \<Rightarrow> [d] | None \<Rightarrow> weekDays)"

definition allTeachersOf :: "ClassData list \<Rightarrow> string list" where
  "allTeachersOf csvData =
     filter (\<lambda>teacher. \<not> str_includes teacher ''Nishanth'' \<and> \<not> str_includes teacher ''Saniya'')
       (uniq (map cd_teacherName csvData))"

definition initialState :: "string list \<Rightarrow> string list \<Rightarrow> SchedState" where
  "initialState allTeachers days =
     \<lparr>optimizedClasses = [],
      teacherHoursTracker = map (\<lambda>teacher. (teacher, 0)) allTeachers,
      teacherDailyHours = map (\<lambda>teacher. (teacher, map (\<lambda>day. (day, 0)) days)) allTeachers,
      teacherShiftAssignments =
        map (\<lambda>teacher. (teacher, map (\<lambda>day. (day, False, False)) days)) allTeachers,
      issued = 0\<rparr>"

text \<open>\<^verbatim>\<open>x || 0\<close> for a number that may be missing.\<close>

definition orZero :: "rat option \<Rightarrow> rat" where
  "orZero v = (case v of None \<Rightarrow> 0 | Some h \<Rightarrow> h)"

definition newTrainerFormats :: "string list" where
  "newTrainerFormats = [''Studio Barre 57'', ''Studio Barre 57 (Express)'', ''Studio powerCycle'',
                        ''Studio powerCycle (Express)'', ''Studio Cardio Barre'']"

definition isSeniorTrainer :: "string \<Rightarrow> bool" where
  "isSeniorTrainer teacherName = list_ex (\<lambda>name. str_includes teacherName name) seniorTrainers"

text \<open>\<^verbatim>\<open>Object.keys(hours).filter(d => hours[d] > 0).length\<close>\<close>

definition workingDays :: "(string \<times> rat) list \<Rightarrow> nat" where
  "workingDays perDay = length (filter (\<lambda>d. orZero (map_of perDay d) > 0) (map fst perDay))"

definition canAssignTeacher ::
  "SchedState \<Rightarrow> string \<Rightarrow> string \<Rightarrow> string \<Rightarrow> rat \<Rightarrow> string \<Rightarrow> js_error + bool" where
  "canAssignTeacher \<sigma> teacherName day time duration classFormat =
     (let weekly = orZero (map_of (teacherHoursTracker \<sigma>) teacherName);
          dailyHours = (case map_of (teacherDailyHours \<sigma>) teacherName of
                          None \<Rightarrow> 0 | Some perDay \<Rightarrow> orZero (map_of perDay day));
          classDuration = duration;
          maxHours = of_nat (maxWeeklyHours teacherName)
      in if isNewTrainer teacherName \<and> classFormat \<notin> set newTrainerFormats then Inr False
         else if classFormat \<in> set advancedFormats \<and> \<not> isSeniorTrainer teacherName then Inr False
         else if weekly + classDuration > maxHours \<or> dailyHours + classDuration > 4 then Inr False
         else (case map_of (teacherDailyHours \<sigma>) teacherName of
                 None \<Rightarrow> Inl TypeError
               | Some perDay \<Rightarrow>
                   let currentWorkingDays = workingDays perDay
                   in if currentWorkingDays \<ge> 5 \<and> map_of perDay day = Some 0 then Inr False
                      else Inr True))"

record ClassSlot =
  cs_classFormat :: string
  cs_location :: string
  cs_day :: string
  cs_time :: string
  cs_avgParticipants :: rat
  cs_avgRevenue :: rat

text \<open>\<^verbatim>\<open>teacher.split(' ')[0]\<close> and \<^verbatim>\<open>teacher.split(' ').slice(1).join(' ')\<close>\<close>

definition splitName :: "string \<Rightarrow> string \<times> string" where
  "splitName teacher =
     (case split_on (CHR '' '') teacher of
        [] \<Rightarrow> ([], [])
      | firstName # lastNameParts \<Rightarrow> (firstName, join_with '' '' lastNameParts))"

text \<open>
  The identifier ends in \<^verbatim>\<open>${Date.now()}-${Math.random()}\<close>; \<open>stamp n\<close> is that text for
  the \<open>n\<close>-th class created.
\<close>

definition createdClass :: "(nat \<Rightarrow> string) \<Rightarrow> nat \<Rightarrow> ClassSlot \<Rightarrow> string \<Rightarrow> ScheduledClass" where
  "createdClass stamp n classData teacher =
     \<lparr>sc_id = ''ai-optimized-'' @ cs_location classData @ ''-'' @ cs_day classData @ ''-''
                @ cs_time classData @ ''-'' @ stamp n,
      sc_day = cs_day classData,
      sc_time = cs_time classData,
      sc_location = cs_location classData,
      sc_classFormat = cs_classFormat classData,
      sc_teacherFirstName = fst (splitName teacher),
      sc_teacherLastName = snd (splitName teacher),
      sc_duration = getClassDuration (cs_classFormat classData),
      sc_participants = Some (cs_avgParticipants classData),
      sc_revenue = Some (cs_avgRevenue classData),
      sc_isTopPerformer = Some (cs_avgParticipants classData > 6),
      sc_isLocked = None,
      sc_isPrivate = Some False,
      sc_coverTeacher = None\<rparr>"

definition markShift ::
  "string \<Rightarrow> string \<Rightarrow> bool \<Rightarrow> (string \<times> (string \<times> bool \<times> bool) list) list
     \<Rightarrow> js_error + (string \<times> (string \<times> bool \<times> bool) list) list" where
  "markShift teacher day morning shifts =
     (case map_of shifts teacher of
        None \<Rightarrow> Inl TypeError
      | Some perDay \<Rightarrow>
         (case map_of perDay day of
            None \<Rightarrow> Inl TypeError
          | Some (m, e) \<Rightarrow>
              Inr (AList.update teacher
                     (AList.update day (if morning then (True, e) else (m, True)) perDay) shifts)))"

definition assignClass ::
  "(nat \<Rightarrow> string) \<Rightarrow> ClassSlot \<Rightarrow> string \<Rightarrow> SchedState \<Rightarrow> js_error + SchedState" where
  "assignClass stamp classData teacher \<sigma> =
     (let duration = getClassDuration (cs_classFormat classData);
          weekly = round1 (orZero (map_of (teacherHoursTracker \<sigma>) teacher) + duration)
      in case map_of (teacherDailyHours \<sigma>) teacher of
           None \<Rightarrow> Inl TypeError
         | Some perDay \<Rightarrow>
            let daily = round1 (orZero (map_of perDay (cs_day classData)) + duration);
                \<sigma>1 = \<sigma>\<lparr>optimizedClasses :=
                          optimizedClasses \<sigma> @ [createdClass stamp (issued \<sigma>) classData teacher],
                        teacherHoursTracker := AList.update teacher weekly (teacherHoursTracker \<sigma>),
                        teacherDailyHours :=
                          AList.update teacher (AList.update (cs_day classData) daily perDay)
                            (teacherDailyHours \<sigma>),
                        issued := Suc (issued \<sigma>)\<rparr>
            in if isMorningSlot (cs_time classData) then
                 bindE (markShift teacher (cs_day classData) True (teacherShiftAssignments \<sigma>))
                   (\<lambda>shifts. Inr (\<sigma>1\<lparr>teacherShiftAssignments := shifts\<rparr>))
               else if isEveningSlot (cs_time classData) then
                 bindE (markShift teacher (cs_day classData) False (teacherShiftAssignments \<sigma>))
                   (\<lambda>shifts. Inr (\<sigma>1\<lparr>teacherShiftAssignments := shifts\<rparr>))
               else Inr \<sigma>1)"

subsection \<open>Ranking the formats of a slot\<close>

record RankedFormat =
  rf_classFormat :: string
  rf_avgParticipants :: rat
  rf_avgRevenue :: rat
  rf_count :: nat
  rf_isPriority :: bool

definition slotData ::
  "ClassData list \<Rightarrow> string \<Rightarrow> string \<Rightarrow> string \<Rightarrow> Guidelines \<Rightarrow> ClassData list" where
  "slotData csvData location day time guidelines =
     filter (\<lambda>item. cd_location item = location
        \<and> cd_dayOfWeek item = day
        \<and> str_includes (cd_classTime item) time
        \<and> \<not> isHostedClass (cd_cleanedClass item)
        \<and> isClassAllowedAtLocation (cd_cleanedClass item) location
        \<and> cd_cleanedClass item \<notin> set (g_avoid guidelines)
        \<and> cd_participants item \<ge> 4) csvData"

definition rankCompare :: "RankedFormat \<Rightarrow> RankedFormat \<Rightarrow> rat" where
  "rankCompare a b =
     (if rf_isPriority a \<and> \<not> rf_isPriority b then - 1
      else if \<not> rf_isPriority a \<and> rf_isPriority b then 1
      else rf_avgParticipants b - rf_avgParticipants a)"

definition rankedFormats :: "ClassData list \<Rightarrow> Guidelines \<Rightarrow> RankedFormat list" where
  "rankedFormats slotRecords guidelines =
     js_sort rankCompare
       (map (\<lambda>(format, p, r, n).
               \<lparr>rf_classFormat = format,
                rf_avgParticipants = p / of_nat n,
                rf_avgRevenue = r / of_nat n,
                rf_count = n,
                rf_isPriority = (format \<in> set (g_priority guidelines))\<rparr>)
          (classStats slotRecords))"

definition getBestClassForSlot ::
  "ClassData list \<Rightarrow> string \<Rightarrow> string \<Rightarrow> string \<Rightarrow> Guidelines \<Rightarrow> RankedFormat option" where
  "getBestClassForSlot csvData location day time guidelines =
     (let slotRecords = slotData csvData location day time guidelines
      in if length slotRecords = 0 then None
         else (case rankedFormats slotRecords guidelines of
                 [] \<Rightarrow> None | best # _ \<Rightarrow> Some best))"

definition inCell :: "string \<Rightarrow> string \<Rightarrow> string \<Rightarrow> ScheduledClass \<Rightarrow> bool" where
  "inCell location day time cls =
     (sc_location cls = location \<and> sc_day cls = day \<and> sc_time cls = time)"

subsection \<open>Phase 0: the locked classes\<close>

definition defaultSlot :: "DefaultClass \<Rightarrow> ClassSlot" where
  "defaultSlot defaultClass =
     \<lparr>cs_classFormat = dc_classFormat defaultClass,
      cs_location = dc_location defaultClass,
      cs_day = dc_day defaultClass,
      cs_time = dc_time defaultClass,
      cs_avgParticipants = dc_avgParticipants defaultClass,
      cs_avgRevenue = 0\<rparr>"

definition lockClass ::
  "(nat \<Rightarrow> string) \<Rightarrow> Options \<Rightarrow> DefaultClass \<Rightarrow> SchedState \<Rightarrow> js_error + bool \<times> SchedState" where
  "lockClass stamp options defaultClass \<sigma> =
     (if (case targetDayOf options of None \<Rightarrow> False | Some d \<Rightarrow> dc_day defaultClass \<noteq> d)
      then carryOn \<sigma>
      else bindE (canAssignTeacher \<sigma> (dc_teacher defaultClass) (dc_day defaultClass)
                    (dc_time defaultClass) (getClassDuration (dc_classFormat defaultClass))
                    (dc_classFormat defaultClass))
             (\<lambda>ok. if ok
                then bindE (assignClass stamp (defaultSlot defaultClass)
                              (dc_teacher defaultClass) \<sigma>) carryOn
                else carryOn \<sigma>))"

definition phase0 :: "(nat \<Rightarrow> string) \<Rightarrow> Options \<Rightarrow> SchedState \<Rightarrow> js_error + SchedState" where
  "phase0 stamp options \<sigma>0 = forBreak (lockClass stamp options) getDefaultTopClasses \<sigma>0"

subsection \<open>Phase 1: filling the slots\<close>

definition classesToScheduleAt :: "string \<Rightarrow> string \<Rightarrow> nat" where
  "classesToScheduleAt location time =
     (if location = ''Kwality House, Kemps Corner''
      then (if time \<in> set [''09:00'', ''11:00'', ''18:00'', ''19:15''] then 2 else 1)
      else if location = ''Supreme HQ, Bandra''
      then (if time \<in> set [''08:00'', ''09:00'', ''10:00'', ''18:00'', ''19:00''] then 2 else 1)
      else 1)"

text \<open>One pass of the loop over the open sub-slots of a cell; the number beside the
  state is \<^verbatim>\<open>classesScheduledForDay\<close>.\<close>

definition fillSubSlot ::
  "(nat \<Rightarrow> string) \<Rightarrow> ClassData list \<Rightarrow> string list \<Rightarrow> string \<Rightarrow> string \<Rightarrow> string \<Rightarrow> nat
     \<Rightarrow> SchedState \<times> nat \<Rightarrow> js_error + bool \<times> SchedState \<times> nat" where
  "fillSubSlot stamp csvData allTeachers location day time i sn =
     (let \<sigma> = fst sn; classesScheduledForDay = snd sn
      in case getBestClassForSlot csvData location day time (getDayGuidelines day) of
           None \<Rightarrow> carryOn sn
         | Some bestClass \<Rightarrow>
            let existingFormats = map sc_classFormat
                  (filter (inCell location day time) (optimizedClasses \<sigma>))
            in if rf_classFormat bestClass \<in> set existingFormats then carryOn sn
               else
                 let duration = getClassDuration (rf_classFormat bestClass);
                     historic = getBestTeacherForClass csvData (rf_classFormat bestClass)
                                  location day time;
                     candidateTeachers = (if isPeakHour time
                        then filter isSeniorTrainer allTeachers else allTeachers)
                 in bindE (case historic of
                             None \<Rightarrow> Inr False
                           | Some t \<Rightarrow> canAssignTeacher \<sigma> t day time duration
                                         (rf_classFormat bestClass))
                      (\<lambda>fits.
                        bindE (if fits then Inr historic
                               else findM (\<lambda>teacher. canAssignTeacher \<sigma> teacher day time duration
                                              (rf_classFormat bestClass)) candidateTeachers)
                          (\<lambda>bestTeacher.
                             case bestTeacher of
                               None \<Rightarrow> carryOn sn
                             | Some teacher \<Rightarrow>
                                 if teacher = [] then carryOn sn
                                 else bindE (assignClass stamp
                                               \<lparr>cs_classFormat = rf_classFormat bestClass,
                                                cs_location = location, cs_day = day,
                                                cs_time = time,
                                                cs_avgParticipants = rf_avgParticipants bestClass,
                                                cs_avgRevenue = rf_avgRevenue bestClass\<rparr>
                                               teacher \<sigma>)
                                        (\<lambda>\<sigma>'. carryOn (\<sigma>', classesScheduledForDay + 1)))))"

definition fillCell ::
  "(nat \<Rightarrow> string) \<Rightarrow> ClassData list \<Rightarrow> string list \<Rightarrow> string \<Rightarrow> string \<Rightarrow> nat \<Rightarrow> string
     \<Rightarrow> SchedState \<times> nat \<Rightarrow> js_error + bool \<times> SchedState \<times> nat" where
  "fillCell stamp csvData allTeachers day location maxClassesForDay time sn =
     (if snd sn \<ge> maxClassesForDay then breakLoop sn
      else
        let classesToSchedule = classesToScheduleAt location time;
            existingClasses = filter (inCell location day time) (optimizedClasses (fst sn));
            remainingSlots = classesToSchedule - length existingClasses
        in bindE (forBreak (fillSubSlot stamp csvData allTeachers location day time)
                    [0 ..< remainingSlots] sn) carryOn)"

definition fillLocation ::
  "(nat \<Rightarrow> string) \<Rightarrow> ClassData list \<Rightarrow> string list \<Rightarrow> string \<Rightarrow> nat \<Rightarrow> string
     \<Rightarrow> SchedState \<times> nat \<Rightarrow> js_error + bool \<times> SchedState \<times> nat" where
  "fillLocation stamp csvData allTeachers day maxClassesForDay location sn =
     bindE (forBreak (fillCell stamp csvData allTeachers day location maxClassesForDay)
              (getAvailableTimeSlots day) sn) carryOn"

definition fillDay ::
  "(nat \<Rightarrow> string) \<Rightarrow> ClassData list \<Rightarrow> string list \<Rightarrow> string \<Rightarrow> SchedState
     \<Rightarrow> js_error + bool \<times> SchedState" where
  "fillDay stamp csvData allTeachers day \<sigma> =
     (let availableSlots = getAvailableTimeSlots day;
          maxClassesForDay = (if day = ''Sunday'' then 5
                              else length availableSlots * length locations);
          classesScheduledForDay = length (filter (\<lambda>cls. sc_day cls = day) (optimizedClasses \<sigma>))
      in bindE (forBreak (fillLocation stamp csvData allTeachers day maxClassesForDay)
                  locations (\<sigma>, classesScheduledForDay))
           (\<lambda>sn. carryOn (fst sn)))"

definition phase1 ::
  "(nat \<Rightarrow> string) \<Rightarrow> ClassData list \<Rightarrow> string list \<Rightarrow> string list \<Rightarrow> SchedState
     \<Rightarrow> js_error + SchedState" where
  "phase1 stamp csvData allTeachers days \<sigma>0 =
     forBreak (fillDay stamp csvData allTeachers) days \<sigma>0"

subsection \<open>Phase 2: raising every teacher to the weekly target\<close>

definition placeSpecialty ::
  "(nat \<Rightarrow> string) \<Rightarrow> string \<Rightarrow> Specialty \<Rightarrow> string \<Rightarrow> string \<Rightarrow> string \<Rightarrow> SchedState
     \<Rightarrow> js_error + bool \<times> SchedState" where
  "placeSpecialty stamp teacher specialty location day time \<sigma> =
     (let existingClasses = filter (inCell location day time) (optimizedClasses \<sigma>)
      in if length existingClasses \<ge> maxParallel location then carryOn \<sigma>
         else if list_ex (\<lambda>cls. sc_classFormat cls = sp_classFormat specialty) existingClasses
         then carryOn \<sigma>
         else bindE (canAssignTeacher \<sigma> teacher day time
                       (getClassDuration (sp_classFormat specialty)) (sp_classFormat specialty))
                (\<lambda>ok. if ok
                   then bindE (assignClass stamp
                                 \<lparr>cs_classFormat = sp_classFormat specialty,
                                  cs_location = location, cs_day = day, cs_time = time,
                                  cs_avgParticipants = sp_avgParticipants specialty,
                                  cs_avgRevenue = 0\<rparr> teacher \<sigma>) breakLoop
                   else carryOn \<sigma>))"

definition specialtyOnDay ::
  "(nat \<Rightarrow> string) \<Rightarrow> string \<Rightarrow> Specialty \<Rightarrow> string \<Rightarrow> string \<Rightarrow> SchedState
     \<Rightarrow> js_error + bool \<times> SchedState" where
  "specialtyOnDay stamp teacher specialty location day \<sigma> =
     (case map_of (teacherDailyHours \<sigma>) teacher of
        None \<Rightarrow> Inl TypeError
      | Some perDay \<Rightarrow>
          if (case map_of perDay day of None \<Rightarrow> False | Some h \<Rightarrow> h \<ge> 4)
          then carryOn \<sigma>
          else bindE (forBreak (placeSpecialty stamp teacher specialty location day)
                        (getAvailableTimeSlots day) \<sigma>) carryOn)"

definition specialtyAtLocation ::
  "(nat \<Rightarrow> string) \<Rightarrow> string list \<Rightarrow> string \<Rightarrow> Specialty \<Rightarrow> string \<Rightarrow> SchedState
     \<Rightarrow> js_error + bool \<times> SchedState" where
  "specialtyAtLocation stamp days teacher specialty location \<sigma> =
     (if \<not> isClassAllowedAtLocation (sp_classFormat specialty) location then carryOn \<sigma>
      else bindE (forBreak (specialtyOnDay stamp teacher specialty location) days \<sigma>) carryOn)"

definition trySpecialty ::
  "(nat \<Rightarrow> string) \<Rightarrow> string list \<Rightarrow> string \<Rightarrow> rat \<Rightarrow> Specialty \<Rightarrow> SchedState
     \<Rightarrow> js_error + bool \<times> SchedState" where
  "trySpecialty stamp days teacher targetHours specialty \<sigma> =
     (if (case map_of (teacherHoursTracker \<sigma>) teacher of
            None \<Rightarrow> False | Some h \<Rightarrow> h \<ge> targetHours)
      then breakLoop \<sigma>
      else bindE (forBreak (specialtyAtLocation stamp days teacher specialty) locations \<sigma>) carryOn)"

definition raiseTeacher ::
  "(nat \<Rightarrow> string) \<Rightarrow> ClassData list \<Rightarrow> string list \<Rightarrow> string \<Rightarrow> SchedState
     \<Rightarrow> js_error + bool \<times> SchedState" where
  "raiseTeacher stamp csvData days teacher \<sigma>0 =
     (let currentHours = orZero (map_of (teacherHoursTracker \<sigma>0) teacher);
          targetHours = of_nat (maxWeeklyHours teacher)
      in if currentHours < targetHours then
           let teacherSpecialties = (case map_of (getTeacherSpecialties csvData) teacher of
                                       None \<Rightarrow> [] | Some l \<Rightarrow> l)
           in bindE (forBreak (trySpecialty stamp days teacher targetHours)
                       (take 3 teacherSpecialties) \<sigma>0) carryOn
         else carryOn \<sigma>0)"

definition phase2 ::
  "(nat \<Rightarrow> string) \<Rightarrow> ClassData list \<Rightarrow> string list \<Rightarrow> string list \<Rightarrow> SchedState
     \<Rightarrow> js_error + SchedState" where
  "phase2 stamp csvData allTeachers days \<sigma>0 =
     forBreak (raiseTeacher stamp csvData days) allTeachers \<sigma>0"

subsection \<open>Phase 3: the required formats\<close>

definition requiredFormats :: "string list" where
  "requiredFormats = [''Studio Cardio Barre'', ''Studio Mat 57'', ''Studio Back Body Blaze'',
                      ''Studio Amped Up!'']"

definition placeRequired ::
  "(nat \<Rightarrow> string) \<Rightarrow> ClassData list \<Rightarrow> string \<Rightarrow> string \<Rightarrow> string \<Rightarrow> string \<Rightarrow> SchedState
     \<Rightarrow> js_error + bool \<times> SchedState" where
  "placeRequired stamp csvData format location day time \<sigma> =
     (let existingClasses = filter (inCell location day time) (optimizedClasses \<sigma>)
      in if length existingClasses \<ge> maxParallel location then carryOn \<sigma>
         else if list_ex (\<lambda>cls. sc_classFormat cls = format) existingClasses then carryOn \<sigma>
         else
           (case getBestTeacherForClass csvData format location day time of
              None \<Rightarrow> carryOn \<sigma>
            | Some bestTeacher \<Rightarrow>
                bindE (canAssignTeacher \<sigma> bestTeacher day time (getClassDuration format) format)
                  (\<lambda>ok. if ok
                     then
                       let average = fst (getClassAverageForSlot csvData format location day time)
                       in bindE (assignClass stamp
                                   \<lparr>cs_classFormat = format, cs_location = location,
                                    cs_day = day, cs_time = time,
                                    cs_avgParticipants = (if average = 0 then 6 else average),
                                    cs_avgRevenue = 0\<rparr> bestTeacher \<sigma>) breakLoop
                     else carryOn \<sigma>)))"

definition requiredOnDay ::
  "(nat \<Rightarrow> string) \<Rightarrow> ClassData list \<Rightarrow> string \<Rightarrow> string \<Rightarrow> string \<Rightarrow> SchedState
     \<Rightarrow> js_error + bool \<times> SchedState" where
  "requiredOnDay stamp csvData format location day \<sigma> =
     bindE (forBreak (placeRequired stamp csvData format location day)
              (getAvailableTimeSlots day) \<sigma>) carryOn"

definition requiredAtLocation ::
  "(nat \<Rightarrow> string) \<Rightarrow> ClassData list \<Rightarrow> string list \<Rightarrow> string \<Rightarrow> string \<Rightarrow> SchedState
     \<Rightarrow> js_error + bool \<times> SchedState" where
  "requiredAtLocation stamp csvData days format location \<sigma> =
     (if \<not> isClassAllowedAtLocation format location then carryOn \<sigma>
      else bindE (forBreak (requiredOnDay stamp csvData format location) days \<sigma>) carryOn)"

definition ensureFormat ::
  "(nat \<Rightarrow> string) \<Rightarrow> ClassData list \<Rightarrow> string list \<Rightarrow> string \<Rightarrow> SchedState
     \<Rightarrow> js_error + bool \<times> SchedState" where
  "ensureFormat stamp csvData days format \<sigma> =
     (let scheduled = length (filter (\<lambda>cls. sc_classFormat cls = format) (optimizedClasses \<sigma>))
      in if scheduled < 3
         then bindE (forBreak (requiredAtLocation stamp csvData days format) locations \<sigma>) carryOn
         else carryOn \<sigma>)"

definition phase3 ::
  "(nat \<Rightarrow> string) \<Rightarrow> ClassData list \<Rightarrow> string list \<Rightarrow> SchedState \<Rightarrow> js_error + SchedState" where
  "phase3 stamp csvData days \<sigma>0 = forBreak (ensureFormat stamp csvData days) requiredFormats \<sigma>0"

subsection \<open>Phase 4: fewer teachers per shift\<close>

text \<open>
  The class at position \<open>i\<close> passes from \<open>teacher\<close> to \<open>target\<close>: the names change on the
  first class that carries its identifier, the hours move between the trackers.
\<close>

definition reassignClass ::
  "string \<Rightarrow> string \<Rightarrow> string \<Rightarrow> nat \<Rightarrow> SchedState \<Rightarrow> js_error + SchedState" where
  "reassignClass teacher target day i \<sigma> =
     (let classes = optimizedClasses \<sigma>;
          cls = classes ! i;
          d = sc_duration cls
      in case findIndex (\<lambda>c. sc_id c = sc_id cls) classes of
           None \<Rightarrow> Inr \<sigma>
         | Some classIndex \<Rightarrow>
            let renamed = classes[classIndex := (classes ! classIndex)
                            \<lparr>sc_teacherFirstName := fst (splitName target),
                             sc_teacherLastName := snd (splitName target)\<rparr>]
            in if map_of (teacherDailyHours \<sigma>) teacher = None
                  \<or> map_of (teacherDailyHours \<sigma>) target = None
               then Inl TypeError
               else
                 (case map_of (teacherHoursTracker \<sigma>) teacher of
                    None \<Rightarrow> Inl NotANumber
                  | Some fromWeek \<Rightarrow>
                     let tracker1 = AList.update teacher (fromWeek - d) (teacherHoursTracker \<sigma>)
                     in case map_of tracker1 target of
                          None \<Rightarrow> Inl NotANumber
                        | Some toWeek \<Rightarrow>
                           let tracker2 = AList.update target (toWeek + d) tracker1
                           in case map_of (teacherDailyHours \<sigma>) teacher of
                                None \<Rightarrow> Inl TypeError
                              | Some fromDays \<Rightarrow>
                                 (case map_of fromDays day of
                                    None \<Rightarrow> Inl NotANumber
                                  | Some fromDay \<Rightarrow>
                                     let daily1 = AList.update teacher
                                           (AList.update day (fromDay - d) fromDays)
                                           (teacherDailyHours \<sigma>)
                                     in case map_of daily1 target of
                                          None \<Rightarrow> Inl TypeError
                                        | Some toDays \<Rightarrow>
                                           (case map_of toDays day of
                                              None \<Rightarrow> Inl NotANumber
                                            | Some toDay \<Rightarrow>
                                               Inr (\<sigma>\<lparr>optimizedClasses := renamed,
                                                       teacherHoursTracker := tracker2,
                                                       teacherDailyHours :=
                                                         AList.update target
                                                           (AList.update day (toDay + d) toDays)
                                                           daily1\<rparr>)))))"

text \<open>The class at position \<open>i\<close> goes to the first of the two busiest teachers who can
  take it.\<close>

definition moveToBusiest ::
  "(string \<times> nat) list \<Rightarrow> string \<Rightarrow> string \<Rightarrow> nat \<Rightarrow> SchedState \<Rightarrow> js_error + bool \<times> SchedState" where
  "moveToBusiest busiest teacher day i \<sigma> =
     (let cls = optimizedClasses \<sigma> ! i
      in bindE (findM (\<lambda>t. canAssignTeacher \<sigma> (fst t) day (sc_time cls)
                         (sc_duration cls) (sc_classFormat cls)) busiest)
           (\<lambda>targetTeacher.
              case targetTeacher of
                None \<Rightarrow> carryOn \<sigma>
              | Some t \<Rightarrow> bindE (reassignClass teacher (fst t) day i \<sigma>) carryOn))"

definition consolidateTeacher ::
  "nat list \<Rightarrow> (string \<times> nat) list \<Rightarrow> string \<Rightarrow> string \<times> nat \<Rightarrow> SchedState
     \<Rightarrow> js_error + bool \<times> SchedState" where
  "consolidateTeacher shiftClasses busiest day entry \<sigma> =
     (let teacher = fst entry;
          teacherClasses = filter (\<lambda>i. fullName (optimizedClasses \<sigma> ! i) = teacher) shiftClasses
      in bindE (forBreak (moveToBusiest busiest teacher day) teacherClasses \<sigma>) carryOn)"

definition consolidateShift ::
  "(string \<Rightarrow> bool) \<Rightarrow> string \<Rightarrow> string \<Rightarrow> SchedState \<Rightarrow> js_error + SchedState" where
  "consolidateShift inShift location day \<sigma>0 =
     (let shiftClasses = indicesWhere (\<lambda>cls. sc_location cls = location \<and> sc_day cls = day
                            \<and> inShift (sc_time cls)) (optimizedClasses \<sigma>0);
          names = map (\<lambda>i. fullName (optimizedClasses \<sigma>0 ! i)) shiftClasses;
          shiftTeachers = uniq names
      in if length shiftTeachers > 2 then
           let teacherClassCounts = js_sort (\<lambda>a b. of_nat (snd a) - of_nat (snd b))
                  (map (\<lambda>teacher. (teacher, length (filter (\<lambda>n. n = teacher) names))) shiftTeachers);
               fewest = take (length teacherClassCounts - 2) teacherClassCounts;
               busiest = drop (length teacherClassCounts - 2) teacherClassCounts
           in forBreak (consolidateTeacher shiftClasses busiest day) fewest \<sigma>0
         else Inr \<sigma>0)"

definition consolidateDay :: "string \<Rightarrow> string \<Rightarrow> SchedState \<Rightarrow> js_error + bool \<times> SchedState" where
  "consolidateDay location day \<sigma> =
     bindE (consolidateShift isMorningSlot location day \<sigma>)
       (\<lambda>\<sigma>'. bindE (consolidateShift isEveningSlot location day \<sigma>') carryOn)"

definition consolidateLocation ::
  "string list \<Rightarrow> string \<Rightarrow> SchedState \<Rightarrow> js_error + bool \<times> SchedState" where
  "consolidateLocation days location \<sigma> =
     bindE (forBreak (consolidateDay location) days \<sigma>) carryOn"

definition phase4 :: "string list \<Rightarrow> SchedState \<Rightarrow> js_error + SchedState" where
  "phase4 days \<sigma>0 = forBreak (consolidateLocation days) locations \<sigma>0"

subsection \<open>Phase 5: balancing mornings and evenings\<close>

text \<open>The class at position \<open>i\<close> is tried at \<open>newTime\<close>; a move ends the search.\<close>

definition moveClass ::
  "string \<Rightarrow> string \<Rightarrow> nat \<Rightarrow> string \<Rightarrow> SchedState \<Rightarrow> js_error + bool \<times> SchedState" where
  "moveClass location day i newTime \<sigma> =
     (let classes = optimizedClasses \<sigma>;
          cls = classes ! i;
          existingClasses = filter (inCell location day newTime) classes
      in if length existingClasses < maxParallel location
            \<and> \<not> list_ex (\<lambda>c. sc_classFormat c = sc_classFormat cls) existingClasses
         then (case findIndex (\<lambda>c. sc_id c = sc_id cls) classes of
                 None \<Rightarrow> carryOn \<sigma>
               | Some classIndex \<Rightarrow>
                   breakLoop (\<sigma>\<lparr>optimizedClasses :=
                       classes[classIndex := (classes ! classIndex)\<lparr>sc_time := newTime\<rparr>]\<rparr>))
         else carryOn \<sigma>)"

text \<open>The slots of the shift that has fewer classes.\<close>

definition targetSlots :: "bool \<Rightarrow> string \<Rightarrow> string list" where
  "targetSlots excessMorning day =
     filter (\<lambda>time. if excessMorning then isEveningSlot time else isMorningSlot time)
       (getAvailableTimeSlots day)"

definition balanceClass ::
  "string \<Rightarrow> string \<Rightarrow> string list \<Rightarrow> nat \<Rightarrow> SchedState \<Rightarrow> js_error + bool \<times> SchedState" where
  "balanceClass location day slots i \<sigma> =
     bindE (forBreak (moveClass location day i) slots \<sigma>) carryOn"

definition balanceDay :: "string \<Rightarrow> string \<Rightarrow> SchedState \<Rightarrow> js_error + SchedState" where
  "balanceDay location day \<sigma>0 =
     (let morning = fst (getShiftBalance (optimizedClasses \<sigma>0) location day);
          evening = snd (getShiftBalance (optimizedClasses \<sigma>0) location day);
          imbalance = (if morning \<ge> evening then morning - evening else evening - morning)
      in if imbalance > 2 then
           let excessMorning = (morning > evening);
               excessClasses = indicesWhere (\<lambda>cls. sc_location cls = location \<and> sc_day cls = day
                     \<and> (if excessMorning then isMorningSlot (sc_time cls)
                         else isEveningSlot (sc_time cls))) (optimizedClasses \<sigma>0);
               slots = targetSlots excessMorning day
           in forBreak (balanceClass location day slots)
                (take ((imbalance + 1) div 2) excessClasses) \<sigma>0
         else Inr \<sigma>0)"

definition balanceLocation :: "string list \<Rightarrow> string \<Rightarrow> SchedState \<Rightarrow> js_error + bool \<times> SchedState" where
  "balanceLocation days location \<sigma> =
     bindE (forBreak (\<lambda>day \<sigma>. bindE (balanceDay location day \<sigma>) carryOn) days \<sigma>) carryOn"

definition phase5 :: "string list \<Rightarrow> SchedState \<Rightarrow> js_error + SchedState" where
  "phase5 days \<sigma>0 = forBreak (balanceLocation days) locations \<sigma>0"

subsection \<open>The whole run\<close>

text \<open>Phases 0 to 3 create classes; phases 4 and 5 only rewrite classes that exist.\<close>

definition creationPhases ::
  "(nat \<Rightarrow> string) \<Rightarrow> ClassData list \<Rightarrow> Options \<Rightarrow> js_error + SchedState" where
  "creationPhases stamp csvData options =
     bindE (phase0 stamp options (initialState (allTeachersOf csvData) (daysOf options)))
       (\<lambda>\<sigma>. bindE (phase1 stamp csvData (allTeachersOf csvData) (daysOf options) \<sigma>)
         (\<lambda>\<sigma>. bindE (phase2 stamp csvData (allTeachersOf csvData) (daysOf options) \<sigma>)
           (phase3 stamp csvData (daysOf options))))"

definition runPhases ::
  "(nat \<Rightarrow> string) \<Rightarrow> ClassData list \<Rightarrow> Options \<Rightarrow> js_error + SchedState" where
  "runPhases stamp csvData options =
     bindE (creationPhases stamp csvData options)
       (\<lambda>\<sigma>. bindE (phase4 (daysOf options) \<sigma>) (phase5 (daysOf options)))"

definition generateIntelligentSchedule ::
  "(nat \<Rightarrow> string) \<Rightarrow> ClassData list \<Rightarrow> CustomTeacher list \<Rightarrow> Options
     \<Rightarrow> js_error + ScheduledClass list" where
  "generateIntelligentSchedule stamp csvData customTeachers options =
     bindE (runPhases stamp csvData options) (\<lambda>\<sigma>. Inr (optimizedClasses \<sigma>))"

text \<open>
  The order of checks the specification describes for \<open>canAssignTeacher\<close>: the days-off
  rule before the hour limits. A teacher without a table of daily hours has no working
  day.
\<close>

definition spec_canAssignDaysOffFirst ::
  "SchedState \<Rightarrow> string \<Rightarrow> string \<Rightarrow> string \<Rightarrow> rat \<Rightarrow> string \<Rightarrow> bool" where
  "spec_canAssignDaysOffFirst \<sigma> teacherName day time duration classFormat =
     (let perDay = (case map_of (teacherDailyHours \<sigma>) teacherName of None \<Rightarrow> [] | Some t \<Rightarrow> t);
          weekly = orZero (map_of (teacherHoursTracker \<sigma>) teacherName);
          dailyHours = orZero (map_of perDay day)
      in if workingDays perDay \<ge> 5 \<and> map_of perDay day = Some 0 then False
         else if weekly + duration > (if isNewTrainer teacherName then 10 else 15)
                 \<or> dailyHours + duration > 4 then False
         else if isNewTrainer teacherName \<and> classFormat \<notin> set newTrainerFormats then False
         else if classFormat \<in> set advancedFormats \<and> \<not> isSeniorTrainer teacherName then False
         else True)"

text \<open>A tracker state in which one teacher works five days of one hour each.\<close>

definition veteranState :: SchedState where
  "veteranState =
     \<lparr>optimizedClasses = [],
      teacherHoursTracker = [(''Reshma Sharma'', 5)],
      teacherDailyHours = [(''Reshma Sharma'',
         [(''Monday'', 1), (''Tuesday'', 1), (''Wednesday'', 1), (''Thursday'', 1),
          (''Friday'', 1), (''Saturday'', 0), (''Sunday'', 0)])],
      teacherShiftAssignments = [],
      issued = 0\<rparr>"

text \<open>What the last phase must leave alone: the trackers, and every field of a class but
  its time.\<close>

definition sameTrackers :: "SchedState \<Rightarrow> SchedState \<Rightarrow> bool" where
  "sameTrackers \<sigma> \<sigma>' =
     (teacherHoursTracker \<sigma>' = teacherHoursTracker \<sigma>
      \<and> teacherDailyHours \<sigma>' = teacherDailyHours \<sigma>
      \<and> teacherShiftAssignments \<sigma>' = teacherShiftAssignments \<sigma>
      \<and> issued \<sigma>' = issued \<sigma>)"

definition sameButTime :: "ScheduledClass \<Rightarrow> ScheduledClass \<Rightarrow> bool" where
  "sameButTime c c' = (c' = c\<lparr>sc_time := sc_time c'\<rparr>)"

definition retimedWithin :: "string list \<Rightarrow> SchedState \<Rightarrow> SchedState \<Rightarrow> bool" where
  "retimedWithin slots \<sigma> \<sigma>' =
     (sameTrackers \<sigma> \<sigma>'
      \<and> list_all2 sameButTime (optimizedClasses \<sigma>) (optimizedClasses \<sigma>')
      \<and> list_all2 (\<lambda>c c'. sc_time c' = sc_time c \<or> sc_time c' \<in> set slots)
           (optimizedClasses \<sigma>) (optimizedClasses \<sigma>'))"

text \<open>Stamps for examples: the number of the class, in decimal.\<close>

definition countStamp :: "nat \<Rightarrow> string" where
  "countStamp n = natStr n"

text \<open>Three morning classes of one teacher at Kenkere House on a Thursday, and no
  evening class.\<close>

definition busyMorning :: SchedState where
  "busyMorning =
     \<lparr>optimizedClasses =
        [createdClass countStamp 0
           \<lparr>cs_classFormat = ''Studio FIT'', cs_location = ''Kenkere House'', cs_day = ''Thursday'',
            cs_time = ''07:30'', cs_avgParticipants = 10, cs_avgRevenue = 0\<rparr> ''Reshma Sharma'',
         createdClass countStamp 1
           \<lparr>cs_classFormat = ''Studio Barre 57'', cs_location = ''Kenkere House'', cs_day = ''Thursday'',
            cs_time = ''08:00'', cs_avgParticipants = 8, cs_avgRevenue = 0\<rparr> ''Reshma Sharma'',
         createdClass countStamp 2
           \<lparr>cs_classFormat = ''Studio Mat 57'', cs_location = ''Kenkere House'', cs_day = ''Thursday'',
            cs_time = ''08:30'', cs_avgParticipants = 7, cs_avgRevenue = 0\<rparr> ''Reshma Sharma''],
      teacherHoursTracker = [(''Reshma Sharma'', 3)],
      teacherDailyHours = [(''Reshma Sharma'', [(''Thursday'', 3)])],
      teacherShiftAssignments = [(''Reshma Sharma'', [(''Thursday'', True, False)])],
      issued = 3\<rparr>"





text \<open>
  What holds whenever a class is committed after the locked classes: its cell is below
  capacity and does not hold its format, and its teacher comes from the records or from
  the locked list and is not an excluded one.
\<close>

definition cellOpen :: "ScheduledClass list \<Rightarrow> ClassSlot \<Rightarrow> bool" where
  "cellOpen classes slot =
     (length (filter (inCell (cs_location slot) (cs_day slot) (cs_time slot)) classes)
        < maxParallel (cs_location slot)
      \<and> cs_classFormat slot \<notin> sc_classFormat `
           set (filter (inCell (cs_location slot) (cs_day slot) (cs_time slot)) classes))"

definition pooled :: "ClassData list \<Rightarrow> string \<Rightarrow> bool" where
  "pooled csvData teacher =
     ((teacher \<in> cd_teacherName ` set csvData \<or> teacher \<in> dc_teacher ` set getDefaultTopClasses)
      \<and> \<not> excludedTeacher teacher)"

text \<open>
  The name a class carries for a teacher of the records: the first word, a space, and the
  rest of the name.
\<close>

definition scheduleName :: "string \<Rightarrow> string" where
  "scheduleName teacher = fst (splitName teacher) @ '' '' @ snd (splitName teacher)"

text \<open>Two sessions of one cell, the better attended one given by an excluded teacher.\<close>

definition rivalRecords :: "ClassData list" where
  "rivalRecords =
     [\<lparr>cd_location = ''Kenkere House'', cd_totalRevenue = 0, cd_participants = 10,
       cd_teacherName = ''Reshma Sharma'', cd_dayOfWeek = ''Thursday'', cd_classTime = ''07:30'',
       cd_cleanedClass = ''Studio FIT''\<rparr>,
      \<lparr>cd_location = ''Kenkere House'', cd_totalRevenue = 0, cd_participants = 20,
       cd_teacherName = ''Saniya Jaiswal'', cd_dayOfWeek = ''Thursday'', cd_classTime = ''07:30'',
       cd_cleanedClass = ''Studio FIT''\<rparr>]"

text \<open>Stamps that never collide: a mark, then one stroke per class created before.\<close>

definition tallyStamp :: "nat \<Rightarrow> string" where
  "tallyStamp n = CHR ''#'' # replicate n (CHR ''i'')"

text \<open>
  No identifier is issued twice: whatever precedes them, the stamps of two different
  classes never end the same text.
\<close>

definition freshStamps :: "(nat \<Rightarrow> string) \<Rightarrow> bool" where
  "freshStamps stamp = (\<forall>i j p q. i \<noteq> j \<longrightarrow> p @ stamp i \<noteq> q @ stamp j)"

text \<open>The identifiers of a state are pairwise different and end in stamps already issued.\<close>

definition stampedIds :: "(nat \<Rightarrow> string) \<Rightarrow> SchedState \<Rightarrow> bool" where
  "stampedIds stamp \<sigma> =
     (distinct (map sc_id (optimizedClasses \<sigma>))
      \<and> (\<forall>c\<in>set (optimizedClasses \<sigma>). \<exists>n<issued \<sigma>. \<exists>p. sc_id c = p @ stamp n))"

text \<open>The Thursday schedule the generator builds from \<open>rivalRecords\<close>.\<close>

definition thursdaySchedule :: "ScheduledClass list" where
  "thursdaySchedule =
     [createdClass tallyStamp 0
        \<lparr>cs_classFormat = ''Studio FIT'', cs_location = ''Kenkere House'', cs_day = ''Thursday'',
         cs_time = ''07:30'', cs_avgParticipants = 15, cs_avgRevenue = 0\<rparr> ''Reshma Sharma'',
      createdClass tallyStamp 1
        \<lparr>cs_classFormat = ''Studio FIT'', cs_location = ''Kwality House, Kemps Corner'',
         cs_day = ''Thursday'', cs_time = ''07:30'', cs_avgParticipants = 10, cs_avgRevenue = 0\<rparr>
        ''Reshma Sharma'',
      createdClass tallyStamp 2
        \<lparr>cs_classFormat = ''Studio FIT'', cs_location = ''Supreme HQ, Bandra'',
         cs_day = ''Thursday'', cs_time = ''07:30'', cs_avgParticipants = 10, cs_avgRevenue = 0\<rparr>
        ''Reshma Sharma'',
      createdClass tallyStamp 3
        \<lparr>cs_classFormat = ''Studio FIT'', cs_location = ''Kenkere House'', cs_day = ''Thursday'',
         cs_time = ''08:00'', cs_avgParticipants = 10, cs_avgRevenue = 0\<rparr> ''Reshma Sharma'']"

text \<open>The statistics of one group, read off the records that carry its key.\<close>

definition keyRecords :: "bool \<Rightarrow> string \<Rightarrow> ClassData list \<Rightarrow> ClassData list" where
  "keyRecords includeTeacher k records = filter (\<lambda>item. groupKey includeTeacher item = k) records"

text \<open>A sum as the source accumulates it, in doubles and in the order of the list.\<close>

definition doubleSum :: "rat list \<Rightarrow> rat" where
  "doubleSum xs = foldl (\<lambda>total x. float64 (total + x)) 0 xs"

definition spec_groupStat :: "bool \<Rightarrow> ClassData list \<Rightarrow> string \<Rightarrow> TopPerformingClass" where
  "spec_groupStat includeTeacher records k =
     (let rs = keyRecords includeTeacher k records; first = hd rs
      in \<lparr>tp_classFormat = cd_cleanedClass first, tp_location = cd_location first,
          tp_day = cd_dayOfWeek first, tp_time = take 5 (cd_classTime first),
          tp_teacher = (if includeTeacher then cd_teacherName first else []),
          tp_avgParticipants =
            float64 (round1 (float64 (doubleSum (map cd_participants rs) / of_nat (length rs)))),
          tp_avgRevenue =
            float64 (round1 (float64 (doubleSum (map cd_totalRevenue rs) / of_nat (length rs)))),
          tp_frequency = length rs\<rparr>)"

text \<open>Keeping, of the entries of one (format, location, day, time), the first one; \<open>seen\<close>
  holds the entries that came before.\<close>

fun dedupSlots :: "TopPerformingClass list \<Rightarrow> TopPerformingClass list \<Rightarrow> TopPerformingClass list" where
  "dedupSlots seen [] = []"
| "dedupSlots seen (x # xs) =
     (if list_ex (sameSlot x) seen then dedupSlots (seen @ [x]) xs
      else x # dedupSlots (seen @ [x]) xs)"

text \<open>The running totals of one group, as the records that carry its key give them.\<close>

definition spec_group :: "bool \<Rightarrow> ClassData list \<Rightarrow> ClassGroup" where
  "spec_group includeTeacher rs =
     \<lparr>cg_classFormat = cd_cleanedClass (hd rs), cg_location = cd_location (hd rs),
      cg_day = cd_dayOfWeek (hd rs), cg_time = take 5 (cd_classTime (hd rs)),
      cg_teacher = (if includeTeacher then cd_teacherName (hd rs) else []),
      cg_totalParticipants = doubleSum (map cd_participants rs),
      cg_totalRevenue = doubleSum (map cd_totalRevenue rs),
      cg_count = length rs\<rparr>"

text \<open>A comparator orders a set consistently when, on it, "not after" is transitive and
  total.\<close>

definition consistentOn :: "'a set \<Rightarrow> ('a \<Rightarrow> 'a \<Rightarrow> rat) \<Rightarrow> bool" where
  "consistentOn S cmp =
     ((\<forall>a\<in>S. \<forall>b\<in>S. \<forall>c\<in>S. cmp a b \<le> 0 \<and> cmp b c \<le> 0 \<longrightarrow> cmp a c \<le> 0)
      \<and> (\<forall>a\<in>S. \<forall>b\<in>S. \<not> cmp a b < 0 \<longrightarrow> cmp b a \<le> 0))"

text \<open>
  What ECMAScript promises of \<^verbatim>\<open>Array.prototype.sort\<close>: the result holds the elements
  it was given, and it is in the order of the comparator when the comparator orders them
  consistently.
\<close>

definition sortsAsSpecified :: "(('a \<Rightarrow> 'a \<Rightarrow> rat) \<Rightarrow> 'a list \<Rightarrow> 'a list) \<Rightarrow> bool" where
  "sortsAsSpecified arraySort =
     (\<forall>cmp xs. (\<forall>x. count_list (arraySort cmp xs) x = count_list xs x)
        \<and> (consistentOn (set xs) cmp \<longrightarrow> sorted_wrt (\<lambda>a b. cmp a b \<le> 0) (arraySort cmp xs)))"

text \<open>The order of the specification: an entry stands before another when its average
  is higher by more than 1, or the averages are within 1 of each other and its frequency
  is not lower. The difference of the averages is the one the doubles give.\<close>

definition rankedAhead :: "TopPerformingClass \<Rightarrow> TopPerformingClass \<Rightarrow> bool" where
  "rankedAhead a b =
     (if \<bar>float64 (tp_avgParticipants b - tp_avgParticipants a)\<bar> > 1
      then float64 (tp_avgParticipants b - tp_avgParticipants a) < 0
      else tp_frequency b \<le> tp_frequency a)"

text \<open>The groups of the records, in the order of their first records, that are kept:
  at least two records and an average of at least \<open>minAverage\<close>.\<close>

definition spec_keptGroups :: "ClassData list \<Rightarrow> rat \<Rightarrow> bool \<Rightarrow> TopPerformingClass list" where
  "spec_keptGroups csvData minAverage includeTeacher =
     filter (\<lambda>cls. 2 \<le> tp_frequency cls \<and> minAverage \<le> tp_avgParticipants cls)
       (map (spec_groupStat includeTeacher (validClasses csvData))
          (uniq (map (groupKey includeTeacher) (validClasses csvData))))"


text \<open>Histories: two slots held twice each, a hosted class held twice, and three slots
  whose averages and frequencies rank them in a circle.\<close>

definition sessionRecord :: "string \<Rightarrow> string \<Rightarrow> string \<Rightarrow> rat \<Rightarrow> ClassData" where
  "sessionRecord classFormat day time participants =
     \<lparr>cd_location = ''Kenkere House'', cd_totalRevenue = 0, cd_participants = participants,
      cd_teacherName = ''Reshma Sharma'', cd_dayOfWeek = day, cd_classTime = time,
      cd_cleanedClass = classFormat\<rparr>"

definition cyclicRecords :: "ClassData list" where
  "cyclicRecords =
     map (sessionRecord ''Studio FIT'' ''Monday'' ''07:30'') [9, 9]
     @ map (sessionRecord ''Studio Barre 57'' ''Tuesday'' ''09:00'') [8, 8, 8]
     @ map (sessionRecord ''Studio Mat 57'' ''Wednesday'' ''18:00'') [7, 8, 7, 8]"


definition repeatRecords :: "ClassData list" where
  "repeatRecords =
     [\<lparr>cd_location = ''Kenkere House'', cd_totalRevenue = 100, cd_participants = 7,
       cd_teacherName = ''Reshma Sharma'', cd_dayOfWeek = ''Tuesday'', cd_classTime = ''09:00'',
       cd_cleanedClass = ''Studio Barre 57''\<rparr>,
      \<lparr>cd_location = ''Kenkere House'', cd_totalRevenue = 0, cd_participants = 10,
       cd_teacherName = ''Reshma Sharma'', cd_dayOfWeek = ''Monday'', cd_classTime = ''07:30'',
       cd_cleanedClass = ''Studio FIT''\<rparr>,
      \<lparr>cd_location = ''Kenkere House'', cd_totalRevenue = 50, cd_participants = 8,
       cd_teacherName = ''Reshma Sharma'', cd_dayOfWeek = ''Tuesday'', cd_classTime = ''09:00'',
       cd_cleanedClass = ''Studio Barre 57''\<rparr>,
      \<lparr>cd_location = ''Kenkere House'', cd_totalRevenue = 0, cd_participants = 12,
       cd_teacherName = ''Reshma Sharma'', cd_dayOfWeek = ''Monday'', cd_classTime = ''07:30'',
       cd_cleanedClass = ''Studio FIT''\<rparr>]"

definition hostedPair :: "ClassData list" where
  "hostedPair = replicate 2
     \<lparr>cd_location = ''Kenkere House'', cd_totalRevenue = 0, cd_participants = 20,
      cd_teacherName = ''Reshma Sharma'', cd_dayOfWeek = ''Monday'', cd_classTime = ''07:30'',
      cd_cleanedClass = ''Hosted Class''\<rparr>"

text \<open>Fixtures: the scenario of ten Saturday sessions, a two-record history, and the
  classes the class modal builds when it validates a manual assignment.\<close>

definition scenarioRecords :: "ClassData list" where
  "scenarioRecords = replicate 10
     \<lparr>cd_location = ''Kwality House, Kemps Corner'', cd_totalRevenue = 0, cd_participants = 25,
      cd_teacherName = ''Karanvir Bhatia'', cd_dayOfWeek = ''Saturday'', cd_classTime = ''10:15'',
      cd_cleanedClass = ''Studio Mat 57''\<rparr>"

definition twoDayRecords :: "ClassData list" where
  "twoDayRecords =
     [\<lparr>cd_location = ''Kenkere House'', cd_totalRevenue = 0, cd_participants = 5,
       cd_teacherName = ''Reshma Sharma'', cd_dayOfWeek = ''Monday'', cd_classTime = ''09:00'',
       cd_cleanedClass = ''Studio FIT''\<rparr>,
      \<lparr>cd_location = ''Kenkere House'', cd_totalRevenue = 0, cd_participants = 20,
       cd_teacherName = ''Reshma Sharma'', cd_dayOfWeek = ''Tuesday'', cd_classTime = ''10:00'',
       cd_cleanedClass = ''Studio Barre 57''\<rparr>]"


section \<open>Properties of the recommendation service and of the hour validation\<close>

lemma startsWith_iff: "startsWith s p \<longleftrightarrow> (\<exists>q. s = p @ q)"
  by (induction s p rule: startsWith.induct) auto

lemma str_includes_iff: "str_includes s sub \<longleftrightarrow> (\<exists>p q. s = p @ sub @ q)"
proof (induction s)
  case Nil
  then show ?case by auto
next
  case (Cons c cs)
  show ?case
  proof
    assume "str_includes (c # cs) sub"
    then consider "startsWith (c # cs) sub" | "str_includes cs sub" by auto
    then show "\<exists>p q. c # cs = p @ sub @ q"
    proof cases
      case 1
      then obtain q where "c # cs = sub @ q" by (auto simp: startsWith_iff)
      then have "c # cs = [] @ sub @ q" by simp
      then show ?thesis by blast
    next
      case 2
      then obtain p q where "cs = p @ sub @ q" using Cons.IH by auto
      then have "c # cs = (c # p) @ sub @ q" by simp
      then show ?thesis by blast
    qed
  next
    assume "\<exists>p q. c # cs = p @ sub @ q"
    then obtain p q where pq: "c # cs = p @ sub @ q" by blast
    show "str_includes (c # cs) sub"
    proof (cases p)
      case Nil
      with pq have "startsWith (c # cs) sub" by (auto simp: startsWith_iff)
      then show ?thesis by simp
    next
      case (Cons a p')
      with pq have "cs = p' @ sub @ q" by simp
      then have "str_includes cs sub" using Cons.IH by blast
      then show ?thesis by simp
    qed
  qed
qed




lemma upsert_keys: "fst ` set (upsert k i f al) = insert k (fst ` set al)"
  by (induction al) (force split: if_splits)+

lemma upsert_distinct: "distinct (map fst al) \<Longrightarrow> distinct (map fst (upsert k i f al))"
  by (induction al) (auto simp: upsert_keys)

lemma upsert_mem:
  "(k', v') \<in> set (upsert k i f al) \<Longrightarrow> distinct (map fst al) \<Longrightarrow>
     (k' \<noteq> k \<and> (k', v') \<in> set al) \<or>
     (k' = k \<and> ((k \<notin> fst ` set al \<and> v' = f i) \<or> (\<exists>v. (k, v) \<in> set al \<and> v' = f v)))"
  by (induction al) (force split: if_splits)+

lemma classStats_snoc:
  "classStats (xs @ [x]) = upsert (cd_cleanedClass x) (0, 0, 0)
          (\<lambda>(p, r, n). (p + cd_participants x, r + cd_totalRevenue x, n + 1)) (classStats xs)"
  by (simp add: classStats_def)

lemma classStats_distinct: "distinct (map fst (classStats data))"
  by (induction data rule: rev_induct) (simp_all add: classStats_def upsert_distinct)

lemma classStats_keys: "fst ` set (classStats data) = cd_cleanedClass ` set data"
proof (induction data rule: rev_induct)
  case Nil
  then show ?case by (simp add: classStats_def)
next
  case (snoc x xs)
  then show ?case using upsert_keys[of "cd_cleanedClass x" _ _ "classStats xs"]
    by (simp add: classStats_snoc)
qed

lemma classStats_count:
  "(k, p, r, n) \<in> set (classStats data) \<Longrightarrow> n = formatCount k data \<and> 0 < n"
proof (induction data arbitrary: k p r n rule: rev_induct)
  case Nil
  then show ?case by (simp add: classStats_def)
next
  case (snoc x xs)
  let ?f = "\<lambda>(p, r, n). (p + cd_participants x, r + cd_totalRevenue x, n + (1::nat))"
  from snoc.prems
  have mem: "(k, p, r, n) \<in> set (upsert (cd_cleanedClass x) (0, 0, 0) ?f (classStats xs))"
    by (simp add: classStats_snoc)
  from upsert_mem[OF mem classStats_distinct]
  consider (other) "k \<noteq> cd_cleanedClass x" "(k, p, r, n) \<in> set (classStats xs)"
    | (fresh) "k = cd_cleanedClass x" "cd_cleanedClass x \<notin> fst ` set (classStats xs)"
        "(p, r, n) = ?f (0, 0, 0)"
    | (old) v where "k = cd_cleanedClass x" "(cd_cleanedClass x, v) \<in> set (classStats xs)"
        "(p, r, n) = ?f v"
    by blast
  then show ?case
  proof cases
    case other
    then show ?thesis using snoc.IH[of k p r n] by (auto simp: formatCount_def)
  next
    case fresh
    then have "k \<notin> cd_cleanedClass ` set xs"
      unfolding classStats_keys by simp
    then have "\<forall>y\<in>set xs. cd_cleanedClass y \<noteq> k"
      by (metis imageI)
    then have "formatCount k xs = 0"
      unfolding formatCount_def by (simp add: filter_empty_conv)
    with fresh show ?thesis by (simp add: formatCount_def)
  next
    case old
    obtain p' r' n' where v: "v = (p', r', n')" by (cases v) auto
    with old snoc.IH[of k p' r' n'] show ?thesis by (auto simp: formatCount_def)
  qed
qed

lemma js_insert_set: "set (js_insert cmp x ys) = insert x (set ys)"
  by (induction ys) auto

lemma js_insert_length: "length (js_insert cmp x ys) = Suc (length ys)"
  by (induction ys) auto

lemma foldl_js_insert_set: "set (foldl (\<lambda>acc x. js_insert cmp x acc) a xs) = set a \<union> set xs"
  by (induction xs arbitrary: a) (auto simp: js_insert_set)

lemma foldl_js_insert_length:
  "length (foldl (\<lambda>acc x. js_insert cmp x acc) a xs) = length a + length xs"
  by (induction xs arbitrary: a) (auto simp: js_insert_length)

lemma js_sort_set: "set (js_sort cmp xs) = set xs"
  by (simp add: js_sort_def foldl_js_insert_set)

lemma js_sort_length: "length (js_sort cmp xs) = length xs"
  by (simp add: js_sort_def foldl_js_insert_length)

lemma analyze_frequency:
  assumes "e \<in> set (analyzeClassPerformance data)"
  shows "cp_frequency e = formatCount (cp_classFormat e) data"
proof -
  from assms obtain k p r n where "(k, p, r, n) \<in> set (classStats data)"
    and "e = \<lparr>cp_classFormat = k, cp_avgParticipants = p / of_nat n,
               cp_avgRevenue = r / of_nat n, cp_frequency = n\<rparr>"
    by (auto simp: analyzeClassPerformance_def js_sort_set)
  then show ?thesis using classStats_count by auto
qed

lemma fallback_eq:
  "getFallbackRecommendations data location day time =
     (let top = take 5 (analyzeClassPerformance (analysisData data location))
      in map (\<lambda>(stats, index). fallbackRec stats index) (zip top [0 ..< length top]))"
  by (simp add: getFallbackRecommendations_def analysisData_def Let_def)

lemma fallback_nth:
  assumes "i < length (getFallbackRecommendations data location day time)"
  shows "getFallbackRecommendations data location day time ! i
       = fallbackRec (take 5 (analyzeClassPerformance (analysisData data location)) ! i) i"
    and "take 5 (analyzeClassPerformance (analysisData data location)) ! i
           \<in> set (analyzeClassPerformance (analysisData data location))"
    and "i < 5"
proof -
  let ?top = "take 5 (analyzeClassPerformance (analysisData data location))"
  from assms have i: "i < length ?top" by (simp add: fallback_eq Let_def)
  then show "getFallbackRecommendations data location day time ! i = fallbackRec (?top ! i) i"
    by (simp add: fallback_eq Let_def)
  from i have "?top ! i \<in> set ?top" by (rule nth_mem)
  then show "?top ! i \<in> set (analyzeClassPerformance (analysisData data location))"
    by (rule in_set_takeD)
  from i show "i < 5" by simp
qed

lemma scalePriority_rank: "i < 5 \<Longrightarrow> scalePriority (10 - of_nat i * 2) = 5 - of_nat i"
proof -
  assume "i < 5"
  then consider "i = 0" | "i = 1" | "i = 2" | "i = 3" | "i = 4" by linarith
  then show ?thesis
    by cases (simp_all add: scalePriority_def mathCeil_def)
qed

text \<open>
  Claim C3, as amended. With no provider configured, \<open>generateRecommendations\<close> returns at
  most five recommendations in descending order of priority; the recommendation at rank
  \<open>i\<close> (from 0) has priority \<open>10 - 2 i\<close>, so 10, 8, 6, 4, 2 and not a value of the 1 to 5
  band; the band appears only when the class modal rescales the list, giving \<open>5 - i\<close>.
  Its confidence is \<open>min(0.9, frequency / 10)\<close>, the frequency being the number of
  analysed records of its class format.
\<close>

theorem fallback_recommendations_ranked:
  assumes "providerMissing provider"
  shows "let rs = generateRecommendations provider remote historicData day time location in
     length rs \<le> 5
     \<and> sorted_wrt (\<lambda>a b. rec_priority a \<ge> rec_priority b) rs
     \<and> (\<forall>i<length rs.
           rec_priority (rs ! i) = 10 - 2 * of_nat i
         \<and> rec_priority (loadAIRecommendations rs ! i) = 5 - of_nat i
         \<and> rec_confidence (rs ! i)
             = min (9 / 10) (of_nat (formatCount (rec_classFormat (rs ! i))
                   (analysisData historicData location)) / 10))"
proof -
  let ?rs = "getFallbackRecommendations historicData location day time"
  have eq: "generateRecommendations provider remote historicData day time location = ?rs"
    using assms by (simp add: generateRecommendations_def)
  have len: "length ?rs \<le> 5" by (simp add: fallback_eq Let_def)
  have prio: "rec_priority (?rs ! i) = 10 - 2 * of_nat i" if "i < length ?rs" for i
    using fallback_nth(1)[OF that] by (simp add: fallbackRec_def)
  have scaled: "rec_priority (loadAIRecommendations ?rs ! i) = 5 - of_nat i"
    if "i < length ?rs" for i
    using that prio[OF that] fallback_nth(3)[OF that] scalePriority_rank[of i]
    by (simp add: loadAIRecommendations_def mult.commute)
  have conf: "rec_confidence (?rs ! i)
             = min (9 / 10) (of_nat (formatCount (rec_classFormat (?rs ! i))
                   (analysisData historicData location)) / 10)"
    if "i < length ?rs" for i
    using fallback_nth(1)[OF that] analyze_frequency[OF fallback_nth(2)[OF that]]
    by (simp add: fallbackRec_def)
  have sorted: "sorted_wrt (\<lambda>a b. rec_priority a \<ge> rec_priority b) ?rs"
    unfolding sorted_wrt_iff_nth_less using prio by auto
  show ?thesis unfolding eq Let_def using len prio scaled conf sorted by blast
qed

text \<open>The scenario: ten sessions of Studio Mat 57 averaging 25 participants. The top
  recommendation is Studio Mat 57 with priority 10; the modal shows it as 5.\<close>

theorem fallback_recommendations_ranked_witness:
  "providerMissing None
   \<and> rec_classFormat (generateRecommendations None AIFailure scenarioRecords
          ''Saturday'' ''10:15'' ''Kwality House, Kemps Corner'' ! 0) = ''Studio Mat 57''
   \<and> rec_priority (generateRecommendations None AIFailure scenarioRecords
          ''Saturday'' ''10:15'' ''Kwality House, Kemps Corner'' ! 0) = 10
   \<and> rec_priority (loadAIRecommendations (generateRecommendations None AIFailure scenarioRecords
          ''Saturday'' ''10:15'' ''Kwality House, Kemps Corner'') ! 0) = 5
   \<and> rec_confidence (generateRecommendations None AIFailure scenarioRecords
          ''Saturday'' ''10:15'' ''Kwality House, Kemps Corner'' ! 0) = 9 / 10"
proof -
  let ?rs = "generateRecommendations None AIFailure scenarioRecords
          ''Saturday'' ''10:15'' ''Kwality House, Kemps Corner''"
  have h: "providerMissing None" by (simp add: providerMissing_def)
  have len: "length ?rs = 1" by code_simp
  have fmt: "rec_classFormat (?rs ! 0) = ''Studio Mat 57''" by code_simp
  have cnt: "formatCount ''Studio Mat 57''
       (analysisData scenarioRecords ''Kwality House, Kemps Corner'') = 10"
    by code_simp
  from fallback_recommendations_ranked[OF h, of AIFailure scenarioRecords
      "''Saturday''" "''10:15''" "''Kwality House, Kemps Corner''"]
  have "rec_priority (?rs ! 0) = 10 - 2 * of_nat 0
      \<and> rec_priority (loadAIRecommendations ?rs ! 0) = 5 - of_nat 0
      \<and> rec_confidence (?rs ! 0)
           = min (9 / 10) (of_nat (formatCount (rec_classFormat (?rs ! 0))
                 (analysisData scenarioRecords ''Kwality House, Kemps Corner'')) / 10)"
    unfolding Let_def using len by (metis zero_less_one)
  then show ?thesis using h fmt cnt by simp
qed

text \<open>Claim C3 as stated fails in its own scenario: the top recommendation has priority
  10, which is neither 5 nor within the 1 to 5 band.\<close>

theorem top_priority_counterexample:
  "rec_classFormat (hd (generateRecommendations None AIFailure scenarioRecords
        ''Saturday'' ''10:15'' ''Kwality House, Kemps Corner'')) = ''Studio Mat 57''
   \<and> rec_priority (hd (generateRecommendations None AIFailure scenarioRecords
        ''Saturday'' ''10:15'' ''Kwality House, Kemps Corner'')) \<noteq> 5
   \<and> \<not> rec_priority (hd (generateRecommendations None AIFailure scenarioRecords
        ''Saturday'' ''10:15'' ''Kwality House, Kemps Corner'')) \<le> 5"
  by code_simp

text \<open>
  Claim C4, as amended. With no provider configured the ranker never filters by day or
  time: it ranks the statistics of the location's records, or of all records when the
  location has none, and the same query for another day and time gives the same list.
  The result is a list in every case (the function has no error value).
\<close>

theorem fallback_ignores_cell:
  assumes "providerMissing provider"
  shows "generateRecommendations provider remote historicData day time location
       = (let top = take 5 (analyzeClassPerformance (analysisData historicData location))
          in map (\<lambda>(stats, index). fallbackRec stats index) (zip top [0 ..< length top]))
     \<and> generateRecommendations provider remote historicData day time location
       = generateRecommendations provider remote' historicData day' time' location"
  using assms by (simp add: generateRecommendations_def fallback_eq)

theorem fallback_ignores_cell_witness:
  "providerMissing None
   \<and> generateRecommendations None AIFailure twoDayRecords ''Monday'' ''09:00'' ''Kenkere House''
     = generateRecommendations None (AIResponse []) twoDayRecords ''Sunday'' ''18:00'' ''Kenkere House''"
proof -
  have h: "providerMissing None" by (simp add: providerMissing_def)
  from fallback_ignores_cell[OF h, of AIFailure twoDayRecords "''Monday''" "''09:00''"
      "''Kenkere House''" "AIResponse []" "''Sunday''" "''18:00''"]
  show ?thesis using h by blast
qed

text \<open>Claim C4 as stated fails: the queried cell (Kenkere House, Monday, 09:00) has a
  record, yet the list ranks the location's Tuesday class first, where the cascade of the
  specification ranks the cell's only format.\<close>

theorem cell_filter_counterexample:
  "map rec_classFormat (generateRecommendations None AIFailure twoDayRecords
        ''Monday'' ''09:00'' ''Kenkere House'') = [''Studio Barre 57'', ''Studio FIT'']
   \<and> map rec_classFormat (spec_rank twoDayRecords ''Kenkere House'' ''Monday'' ''09:00'')
        = [''Studio FIT'']"
  by code_simp




section \<open>Properties of the load tracker\<close>

text \<open>
  Claim C7. A teacher whose table of daily hours shows five days with hours is refused
  any class on a day with none, whatever the hour budgets allow. The source tests the tier
  and the hour limits before the days-off rule; as every test only refuses, the answer
  is the one the order of the specification gives, the days-off rule first, for every
  teacher who has a table of daily hours.
\<close>

theorem canAssign_sixth_day_refused:
  assumes "map_of (teacherDailyHours \<sigma>) teacherName = Some perDay"
  shows "(workingDays perDay \<ge> 5 \<and> map_of perDay day = Some 0
            \<longrightarrow> canAssignTeacher \<sigma> teacherName day time duration classFormat = Inr False)
       \<and> canAssignTeacher \<sigma> teacherName day time duration classFormat
           = Inr (spec_canAssignDaysOffFirst \<sigma> teacherName day time duration classFormat)"
  using assms
  by (auto simp: canAssignTeacher_def spec_canAssignDaysOffFirst_def Let_def maxWeeklyHours_def)

text \<open>Five days of one hour each leave room in both budgets, and Saturday is refused.\<close>

theorem canAssign_sixth_day_refused_witness:
  "canAssignTeacher veteranState ''Reshma Sharma'' ''Saturday'' ''09:00'' 1 ''Studio FIT''
       = Inr False
   \<and> spec_canAssignDaysOffFirst veteranState ''Reshma Sharma'' ''Saturday'' ''09:00'' 1 ''Studio FIT''
       = False
   \<and> orZero (map_of (teacherHoursTracker veteranState) ''Reshma Sharma'') + 1 \<le> 15
   \<and> orZero (map_of [(''Monday'', 1), (''Tuesday'', 1), (''Wednesday'', 1), (''Thursday'', 1),
             (''Friday'', 1), (''Saturday'', 0), (''Sunday'', 0)] ''Saturday'') + 1 \<le> (4::rat)"
proof -
  let ?pd = "[(''Monday'', 1::rat), (''Tuesday'', 1), (''Wednesday'', 1), (''Thursday'', 1),
              (''Friday'', 1), (''Saturday'', 0), (''Sunday'', 0)]"
  have a: "map_of (teacherDailyHours veteranState) ''Reshma Sharma'' = Some ?pd"
    by (simp add: veteranState_def)
  have b: "workingDays ?pd \<ge> 5" by code_simp
  have c: "map_of ?pd ''Saturday'' = Some 0" by simp
  have d: "orZero (map_of (teacherHoursTracker veteranState) ''Reshma Sharma'') + 1 \<le> 15"
    by (simp add: veteranState_def orZero_def)
  have e: "orZero (map_of ?pd ''Saturday'') + 1 \<le> (4::rat)" by (simp add: orZero_def)
  from canAssign_sixth_day_refused[OF a, of "''Saturday''" "''09:00''" 1 "''Studio FIT''"] b c
  have "canAssignTeacher veteranState ''Reshma Sharma'' ''Saturday'' ''09:00'' 1 ''Studio FIT''
          = Inr False"
    and "canAssignTeacher veteranState ''Reshma Sharma'' ''Saturday'' ''09:00'' 1 ''Studio FIT''
          = Inr (spec_canAssignDaysOffFirst veteranState ''Reshma Sharma'' ''Saturday'' ''09:00'' 1 ''Studio FIT'')"
    by blast+
  with d e show ?thesis by simp
qed

section \<open>Properties of the schedule generator\<close>

subsection \<open>Loops and lookups\<close>

lemma forBreak_inv:
  assumes "forBreak body xs s = Inr s'" and "P s"
    and "\<And>x s b s'. x \<in> set xs \<Longrightarrow> P s \<Longrightarrow> body x s = Inr (b, s') \<Longrightarrow> P s'"
  shows "P s'"
  using assms
proof (induction xs arbitrary: s)
  case Nil
  then show ?case by simp
next
  case (Cons x xs)
  from Cons.prems(1) obtain b s1 where step: "body x s = Inr (b, s1)"
    by (auto split: sum.splits)
  have P1: "P s1" using Cons.prems(3)[OF _ Cons.prems(2) step] by simp
  show ?case
  proof (cases b)
    case True
    with Cons.prems(1) step have "s' = s1" by simp
    with P1 show ?thesis by simp
  next
    case False
    with Cons.prems(1) step have "forBreak body xs s1 = Inr s'" by simp
    from Cons.IH[OF this P1] Cons.prems(3) show ?thesis by auto
  qed
qed

lemma bindE_Inr: "bindE m f = Inr y \<longleftrightarrow> (\<exists>x. m = Inr x \<and> f x = Inr y)"
  by (cases m) (auto simp: bindE_def)

lemma carryOn_eq: "carryOn s = Inr (b, s') \<longleftrightarrow> (b = False \<and> s' = s)"
  by (auto simp: carryOn_def)

lemma breakLoop_eq: "breakLoop s = Inr (b, s') \<longleftrightarrow> (b = True \<and> s' = s)"
  by (auto simp: breakLoop_def)

lemma findIndex_Some:
  "findIndex p xs = Some k \<Longrightarrow> k < length xs \<and> p (xs ! k) \<and> (\<forall>j<k. \<not> p (xs ! j))"
proof (induction xs arbitrary: k)
  case Nil
  then show ?case by simp
next
  case (Cons x xs)
  show ?case
  proof (cases "p x")
    case True
    with Cons.prems show ?thesis by simp
  next
    case False
    with Cons.prems obtain k' where k': "findIndex p xs = Some k'" "k = Suc k'" by auto
    from Cons.IH[OF k'(1)] False k'(2) show ?thesis
      by (auto simp: nth_Cons split: nat.splits)
  qed
qed

lemma findIndex_distinct:
  assumes "distinct (map f xs)" "i < length xs" "findIndex (\<lambda>c. f c = f (xs ! i)) xs = Some k"
  shows "k = i"
proof -
  from findIndex_Some[OF assms(3)] have "k < length xs" "f (xs ! k) = f (xs ! i)" by auto
  with assms(1,2) show ?thesis
    by (metis distinct_conv_nth length_map nth_map)
qed

lemma sameButTime_refl: "sameButTime c c" by (simp add: sameButTime_def)

lemma sameButTime_trans: "sameButTime a b \<Longrightarrow> sameButTime b c \<Longrightarrow> sameButTime a c"
  unfolding sameButTime_def by (metis ScheduledClass.update_convs(3) ScheduledClass.surjective)

lemma sameButTime_update: "sameButTime c (c\<lparr>sc_time := t\<rparr>)"
  by (simp add: sameButTime_def)

lemma moveClass_step:
  assumes "moveClass location day i newTime \<sigma> = Inr (b, \<sigma>')"
  shows "sameTrackers \<sigma> \<sigma>'"
    and "\<not> b \<Longrightarrow> \<sigma>' = \<sigma>"
    and "b \<Longrightarrow> \<exists>j<length (optimizedClasses \<sigma>).
            sc_id (optimizedClasses \<sigma> ! j) = sc_id (optimizedClasses \<sigma> ! i)
          \<and> optimizedClasses \<sigma>' = (optimizedClasses \<sigma>)[j := (optimizedClasses \<sigma> ! j)\<lparr>sc_time := newTime\<rparr>]
          \<and> (distinct (map sc_id (optimizedClasses \<sigma>)) \<and> i < length (optimizedClasses \<sigma>) \<longrightarrow> j = i)"
    and "b \<Longrightarrow> length (filter (inCell location day newTime) (optimizedClasses \<sigma>)) < maxParallel location
          \<and> (\<forall>c\<in>set (optimizedClasses \<sigma>). inCell location day newTime c
                \<longrightarrow> sc_classFormat c \<noteq> sc_classFormat (optimizedClasses \<sigma> ! i))"
proof -
  let ?cs = "optimizedClasses \<sigma>"
  show "sameTrackers \<sigma> \<sigma>'" using assms
    by (auto simp: moveClass_def Let_def carryOn_eq breakLoop_eq sameTrackers_def
        split: if_splits option.splits)
  show "\<not> b \<Longrightarrow> \<sigma>' = \<sigma>" using assms
    by (auto simp: moveClass_def Let_def carryOn_eq breakLoop_eq split: if_splits option.splits)
  assume b
  with assms obtain k where k: "findIndex (\<lambda>c. sc_id c = sc_id (?cs ! i)) ?cs = Some k"
    and cap: "length (filter (inCell location day newTime) ?cs) < maxParallel location"
    and fmt: "\<not> list_ex (\<lambda>c. sc_classFormat c = sc_classFormat (?cs ! i)) (filter (inCell location day newTime) ?cs)"
    and upd: "\<sigma>' = \<sigma>\<lparr>optimizedClasses := ?cs[k := (?cs ! k)\<lparr>sc_time := newTime\<rparr>]\<rparr>"
    by (auto simp: moveClass_def Let_def carryOn_eq breakLoop_eq split: if_splits option.splits)
  from findIndex_Some[OF k] have kl: "k < length ?cs" and kid: "sc_id (?cs ! k) = sc_id (?cs ! i)" by auto
  have "distinct (map sc_id ?cs) \<and> i < length ?cs \<longrightarrow> k = i"
    using findIndex_distinct[of sc_id ?cs i k] k by blast
  with kl kid upd
  show "\<exists>j<length ?cs. sc_id (?cs ! j) = sc_id (?cs ! i)
          \<and> optimizedClasses \<sigma>' = ?cs[j := (?cs ! j)\<lparr>sc_time := newTime\<rparr>]
          \<and> (distinct (map sc_id ?cs) \<and> i < length ?cs \<longrightarrow> j = i)"
    by auto
  from cap fmt
  show "length (filter (inCell location day newTime) ?cs) < maxParallel location
          \<and> (\<forall>c\<in>set ?cs. inCell location day newTime c \<longrightarrow> sc_classFormat c \<noteq> sc_classFormat (?cs ! i))"
    by (auto simp: list_ex_iff)
qed

lemma retimedWithin_refl: "retimedWithin slots \<sigma> \<sigma>"
  by (simp add: retimedWithin_def sameTrackers_def list_all2_same sameButTime_refl)

lemma retimedWithin_move:
  assumes "retimedWithin slots \<sigma>0 \<sigma>" "moveClass location day i newTime \<sigma> = Inr (b, \<sigma>')" "newTime \<in> set slots"
  shows "retimedWithin slots \<sigma>0 \<sigma>'"
proof (cases b)
  case False
  with moveClass_step(2)[OF assms(2)] assms(1) show ?thesis by simp
next
  case True
  from moveClass_step(3)[OF assms(2) True] obtain j where j: "j < length (optimizedClasses \<sigma>)"
    and upd: "optimizedClasses \<sigma>' = (optimizedClasses \<sigma>)[j := (optimizedClasses \<sigma> ! j)\<lparr>sc_time := newTime\<rparr>]"
    by blast
  from assms(1) have len: "length (optimizedClasses \<sigma>0) = length (optimizedClasses \<sigma>)"
    by (auto simp: retimedWithin_def dest: list_all2_lengthD)
  have a: "list_all2 sameButTime (optimizedClasses \<sigma>0) (optimizedClasses \<sigma>')"
    unfolding upd list_all2_conv_all_nth
  proof (intro conjI allI impI)
    show "length (optimizedClasses \<sigma>0) = length ((optimizedClasses \<sigma>)[j := (optimizedClasses \<sigma> ! j)\<lparr>sc_time := newTime\<rparr>])"
      using len by simp
    fix n assume n: "n < length (optimizedClasses \<sigma>0)"
    from assms(1) n have s: "sameButTime (optimizedClasses \<sigma>0 ! n) (optimizedClasses \<sigma> ! n)"
      by (auto simp: retimedWithin_def list_all2_conv_all_nth)
    show "sameButTime (optimizedClasses \<sigma>0 ! n) ((optimizedClasses \<sigma>)[j := (optimizedClasses \<sigma> ! j)\<lparr>sc_time := newTime\<rparr>] ! n)"
    proof (cases "n = j")
      case True
      with s j show ?thesis using sameButTime_trans[OF s sameButTime_update] by simp
    next
      case False
      with s show ?thesis by simp
    qed
  qed
  have b': "list_all2 (\<lambda>c c'. sc_time c' = sc_time c \<or> sc_time c' \<in> set slots) (optimizedClasses \<sigma>0) (optimizedClasses \<sigma>')"
    unfolding upd list_all2_conv_all_nth
  proof (intro conjI allI impI)
    show "length (optimizedClasses \<sigma>0) = length ((optimizedClasses \<sigma>)[j := (optimizedClasses \<sigma> ! j)\<lparr>sc_time := newTime\<rparr>])"
      using len by simp
    fix n assume n: "n < length (optimizedClasses \<sigma>0)"
    from assms(1) n have s: "sc_time (optimizedClasses \<sigma> ! n) = sc_time (optimizedClasses \<sigma>0 ! n) \<or> sc_time (optimizedClasses \<sigma> ! n) \<in> set slots"
      by (auto simp: retimedWithin_def list_all2_conv_all_nth)
    show "sc_time ((optimizedClasses \<sigma>)[j := (optimizedClasses \<sigma> ! j)\<lparr>sc_time := newTime\<rparr>] ! n) = sc_time (optimizedClasses \<sigma>0 ! n)
        \<or> sc_time ((optimizedClasses \<sigma>)[j := (optimizedClasses \<sigma> ! j)\<lparr>sc_time := newTime\<rparr>] ! n) \<in> set slots"
      using s assms(3) j by (cases "n = j") auto
  qed
  from moveClass_step(1)[OF assms(2)] assms(1) have "sameTrackers \<sigma>0 \<sigma>'"
    by (auto simp: retimedWithin_def sameTrackers_def)
  with a b' show ?thesis by (simp add: retimedWithin_def)
qed

lemma balanceDay_retimed:
  assumes "balanceDay location day \<sigma> = Inr \<sigma>'"
  shows "retimedWithin (targetSlots (fst (getShiftBalance (optimizedClasses \<sigma>) location day)
                          > snd (getShiftBalance (optimizedClasses \<sigma>) location day)) day) \<sigma> \<sigma>'"
proof -
  let ?m = "fst (getShiftBalance (optimizedClasses \<sigma>) location day)"
  let ?e = "snd (getShiftBalance (optimizedClasses \<sigma>) location day)"
  let ?slots = "targetSlots (?m > ?e) day"
  show ?thesis
  proof (cases "(if ?m \<ge> ?e then ?m - ?e else ?e - ?m) > 2")
    case False
    with assms have "\<sigma>' = \<sigma>" by (simp add: balanceDay_def Let_def)
    then show ?thesis by (simp add: retimedWithin_refl)
  next
    case True
    then obtain idx where loop: "forBreak (balanceClass location day ?slots) idx \<sigma> = Inr \<sigma>'"
      using assms by (simp add: balanceDay_def Let_def)
    show ?thesis
    proof (rule forBreak_inv[OF loop, where P = "retimedWithin ?slots \<sigma>"])
      show "retimedWithin ?slots \<sigma> \<sigma>" by (rule retimedWithin_refl)
    next
      fix i s b s'
      assume P: "retimedWithin ?slots \<sigma> s"
        and step: "balanceClass location day ?slots i s = Inr (b, s')"
      from step have inner: "forBreak (moveClass location day i) ?slots s = Inr s'"
        by (auto simp: balanceClass_def bindE_Inr carryOn_eq)
      show "retimedWithin ?slots \<sigma> s'"
        by (rule forBreak_inv[OF inner, where P = "retimedWithin ?slots \<sigma>"])
           (auto intro: P retimedWithin_move)
    qed
  qed
qed

lemma retimedWithin_weaken:
  "retimedWithin slots \<sigma> \<sigma>' \<Longrightarrow> sameTrackers \<sigma> \<sigma>' \<and> list_all2 sameButTime (optimizedClasses \<sigma>) (optimizedClasses \<sigma>')"
  by (simp add: retimedWithin_def)

lemma frame_trans:
  "sameTrackers a b \<and> list_all2 sameButTime (optimizedClasses a) (optimizedClasses b) \<Longrightarrow>
   sameTrackers b c \<and> list_all2 sameButTime (optimizedClasses b) (optimizedClasses c) \<Longrightarrow>
   sameTrackers a c \<and> list_all2 sameButTime (optimizedClasses a) (optimizedClasses c)"
proof -
  assume ab: "sameTrackers a b \<and> list_all2 sameButTime (optimizedClasses a) (optimizedClasses b)"
    and bc: "sameTrackers b c \<and> list_all2 sameButTime (optimizedClasses b) (optimizedClasses c)"
  have "list_all2 sameButTime (optimizedClasses a) (optimizedClasses c)"
    using list_all2_trans[of sameButTime sameButTime sameButTime
        "optimizedClasses a" "optimizedClasses b" "optimizedClasses c"]
      sameButTime_trans ab bc by blast
  moreover have "sameTrackers a c" using ab bc by (auto simp: sameTrackers_def)
  ultimately show ?thesis by simp
qed

lemma phase5_frame:
  assumes "phase5 days \<sigma> = Inr \<sigma>'"
  shows "sameTrackers \<sigma> \<sigma>' \<and> list_all2 sameButTime (optimizedClasses \<sigma>) (optimizedClasses \<sigma>')"
proof (rule forBreak_inv[OF assms[unfolded phase5_def],
      where P = "\<lambda>s. sameTrackers \<sigma> s \<and> list_all2 sameButTime (optimizedClasses \<sigma>) (optimizedClasses s)"])
  show "sameTrackers \<sigma> \<sigma> \<and> list_all2 sameButTime (optimizedClasses \<sigma>) (optimizedClasses \<sigma>)"
    by (simp add: sameTrackers_def list_all2_same sameButTime_refl)
next
  fix location s b s'
  assume P: "sameTrackers \<sigma> s \<and> list_all2 sameButTime (optimizedClasses \<sigma>) (optimizedClasses s)"
    and step: "balanceLocation days location s = Inr (b, s')"
  from step have inner: "forBreak (\<lambda>day \<sigma>. bindE (balanceDay location day \<sigma>) carryOn) days s = Inr s'"
    by (auto simp: balanceLocation_def bindE_Inr carryOn_eq)
  show "sameTrackers \<sigma> s' \<and> list_all2 sameButTime (optimizedClasses \<sigma>) (optimizedClasses s')"
  proof (rule forBreak_inv[OF inner,
      where P = "\<lambda>s. sameTrackers \<sigma> s \<and> list_all2 sameButTime (optimizedClasses \<sigma>) (optimizedClasses s)"])
    show "sameTrackers \<sigma> s \<and> list_all2 sameButTime (optimizedClasses \<sigma>) (optimizedClasses s)" by (rule P)
  next
    fix day t b' t'
    assume Q: "sameTrackers \<sigma> t \<and> list_all2 sameButTime (optimizedClasses \<sigma>) (optimizedClasses t)"
      and st: "bindE (balanceDay location day t) carryOn = Inr (b', t')"
    from st have "balanceDay location day t = Inr t'" by (auto simp: bindE_Inr carryOn_eq)
    from retimedWithin_weaken[OF balanceDay_retimed[OF this]] Q
    show "sameTrackers \<sigma> t' \<and> list_all2 sameButTime (optimizedClasses \<sigma>) (optimizedClasses t')"
      by (rule frame_trans[rotated])
  qed
qed

lemma targetSlots_shift:
  "t \<in> set (targetSlots excessMorning day) \<Longrightarrow>
     t \<in> set (getAvailableTimeSlots day) \<and> (if excessMorning then isEveningSlot t else isMorningSlot t)"
  by (auto simp: targetSlots_def)

subsection \<open>The balancing phase\<close>

lemma forBreak_total:
  assumes "\<And>x s. \<exists>b s'. body x s = Inr (b, s')"
  shows "\<exists>s'. forBreak body xs s = Inr s'"
proof (induction xs arbitrary: s)
  case Nil
  then show ?case by simp
next
  case (Cons x xs)
  from assms obtain b s1 where "body x s = Inr (b, s1)" by blast
  with Cons.IH[of s1] show ?case by (cases b) auto
qed

lemma moveClass_total: "\<exists>b s'. moveClass location day i newTime \<sigma> = Inr (b, s')"
  by (auto simp: moveClass_def Let_def carryOn_def breakLoop_def split: option.splits)

lemma balanceDay_total: "\<exists>s'. balanceDay location day \<sigma> = Inr s'"
proof -
  have "\<exists>b s'. balanceClass location day slots i s = Inr (b, s')" for i slots s
    using forBreak_total[of "moveClass location day i" slots s, OF moveClass_total]
    by (auto simp: balanceClass_def bindE_def carryOn_def)
  then show ?thesis
    unfolding balanceDay_def Let_def
    using forBreak_total[of "balanceClass location day _"]
    by (auto split: if_splits)
qed

lemma phase5_total: "\<exists>s'. phase5 days \<sigma> = Inr s'"
proof -
  have inner: "\<exists>b s'. bindE (balanceDay location day s) carryOn = Inr (b, s')" for location day s
    using balanceDay_total[of location day s] by (auto simp: bindE_def carryOn_def)
  have mid: "\<exists>b s'. balanceLocation days location s = Inr (b, s')" for location s
    using forBreak_total[of "\<lambda>day \<sigma>. bindE (balanceDay location day \<sigma>) carryOn" days s, OF inner]
    by (auto simp: balanceLocation_def bindE_def carryOn_def)
  show ?thesis unfolding phase5_def
    by (rule forBreak_total[OF mid])
qed

text \<open>
  Claim C9. A move of the balancing phase rewrites the time of one class, the first one
  carrying the identifier of the class chosen (the chosen class itself when identifiers
  are distinct), and nothing else: the other fields, the other classes and the trackers
  of hours and shifts stay as they were. The new time is a slot of the shift with fewer
  classes, whose cell is below the location's capacity and holds no class of the same
  format. The phase always returns, and over the whole phase only times change.
\<close>

theorem phase5_changes_only_times:
  "(moveClass location day i newTime \<sigma> = Inr (moved, \<sigma>1) \<longrightarrow>
        sameTrackers \<sigma> \<sigma>1
      \<and> (\<not> moved \<longrightarrow> \<sigma>1 = \<sigma>)
      \<and> (moved \<longrightarrow>
            (\<exists>j<length (optimizedClasses \<sigma>).
                sc_id (optimizedClasses \<sigma> ! j) = sc_id (optimizedClasses \<sigma> ! i)
              \<and> optimizedClasses \<sigma>1
                  = (optimizedClasses \<sigma>)[j := (optimizedClasses \<sigma> ! j)\<lparr>sc_time := newTime\<rparr>]
              \<and> (distinct (map sc_id (optimizedClasses \<sigma>)) \<and> i < length (optimizedClasses \<sigma>)
                    \<longrightarrow> j = i))
          \<and> length (filter (inCell location day newTime) (optimizedClasses \<sigma>)) < maxParallel location
          \<and> (\<forall>c\<in>set (optimizedClasses \<sigma>). inCell location day newTime c
                \<longrightarrow> sc_classFormat c \<noteq> sc_classFormat (optimizedClasses \<sigma> ! i))))
   \<and> (balanceDay location day \<sigma> = Inr \<sigma>2 \<longrightarrow>
        retimedWithin (targetSlots (fst (getShiftBalance (optimizedClasses \<sigma>) location day)
                          > snd (getShiftBalance (optimizedClasses \<sigma>) location day)) day) \<sigma> \<sigma>2)
   \<and> (\<forall>t\<in>set (targetSlots excessMorning day).
          t \<in> set (getAvailableTimeSlots day)
        \<and> (if excessMorning then isEveningSlot t else isMorningSlot t))
   \<and> (\<exists>\<sigma>3. phase5 days \<sigma> = Inr \<sigma>3)
   \<and> (phase5 days \<sigma> = Inr \<sigma>3 \<longrightarrow>
        sameTrackers \<sigma> \<sigma>3 \<and> list_all2 sameButTime (optimizedClasses \<sigma>) (optimizedClasses \<sigma>3))"
  using moveClass_step[of location day i newTime \<sigma> moved \<sigma>1]
    balanceDay_retimed[of location day \<sigma> \<sigma>2]
    targetSlots_shift[of _ excessMorning day]
    phase5_total[of days \<sigma>] phase5_frame[of days \<sigma> \<sigma>3]
  by blast


text \<open>Three morning classes and no evening class: two classes move to 17:00.\<close>

theorem phase5_changes_only_times_witness:
  "moveClass ''Kenkere House'' ''Thursday'' 0 ''17:00'' busyMorning
     = Inr (True, busyMorning\<lparr>optimizedClasses :=
          (optimizedClasses busyMorning)[0 := (optimizedClasses busyMorning ! 0)\<lparr>sc_time := ''17:00''\<rparr>]\<rparr>)
   \<and> length (filter (inCell ''Kenkere House'' ''Thursday'' ''17:00'') (optimizedClasses busyMorning))
       < maxParallel ''Kenkere House''
   \<and> phase5 [''Thursday''] busyMorning
     = Inr (busyMorning\<lparr>optimizedClasses :=
          map (\<lambda>(c, t). c\<lparr>sc_time := t\<rparr>)
            (zip (optimizedClasses busyMorning) [''17:00'', ''17:00'', ''08:30''])\<rparr>)
   \<and> sameTrackers busyMorning (busyMorning\<lparr>optimizedClasses :=
          map (\<lambda>(c, t). c\<lparr>sc_time := t\<rparr>)
            (zip (optimizedClasses busyMorning) [''17:00'', ''17:00'', ''08:30''])\<rparr>)
   \<and> list_all2 sameButTime (optimizedClasses busyMorning)
        (map (\<lambda>(c, t). c\<lparr>sc_time := t\<rparr>)
            (zip (optimizedClasses busyMorning) [''17:00'', ''17:00'', ''08:30'']))"
proof -
  let ?moved = "busyMorning\<lparr>optimizedClasses :=
          (optimizedClasses busyMorning)[0 := (optimizedClasses busyMorning ! 0)\<lparr>sc_time := ''17:00''\<rparr>]\<rparr>"
  let ?final = "busyMorning\<lparr>optimizedClasses :=
          map (\<lambda>(c, t). c\<lparr>sc_time := t\<rparr>)
            (zip (optimizedClasses busyMorning) [''17:00'', ''17:00'', ''08:30''])\<rparr>"
  have m: "moveClass ''Kenkere House'' ''Thursday'' 0 ''17:00'' busyMorning = Inr (True, ?moved)"
    by code_simp
  have p: "phase5 [''Thursday''] busyMorning = Inr ?final"
    by code_simp
  from phase5_changes_only_times[of "''Kenkere House''" "''Thursday''" 0 "''17:00''" busyMorning
      True ?moved _ _ "[''Thursday'']" ?final] m p
  show ?thesis by simp
qed

subsection \<open>Ranking and filling a slot\<close>












lemma findM_Some: "findM p xs = Inr (Some x) \<Longrightarrow> x \<in> set xs \<and> p x = Inr True"
  by (induction xs) (auto split: sum.splits if_splits)

lemma fillSubSlot_cases:
  assumes "fillSubSlot stamp csvData allTeachers location day time i (\<sigma>, n) = Inr (b, \<sigma>', n')"
  shows "(\<sigma>' = \<sigma> \<and> n' = n) \<or>
     (\<exists>best teacher. getBestClassForSlot csvData location day time (getDayGuidelines day) = Some best
        \<and> rf_classFormat best \<notin> sc_classFormat ` set (filter (inCell location day time) (optimizedClasses \<sigma>))
        \<and> canAssignTeacher \<sigma> teacher day time (getClassDuration (rf_classFormat best)) (rf_classFormat best) = Inr True
        \<and> assignClass stamp \<lparr>cs_classFormat = rf_classFormat best, cs_location = location, cs_day = day,
              cs_time = time, cs_avgParticipants = rf_avgParticipants best,
              cs_avgRevenue = rf_avgRevenue best\<rparr> teacher \<sigma> = Inr \<sigma>'
        \<and> n' = n + 1
        \<and> teacher \<in> set allTeachers
              \<union> set_option (getBestTeacherForClass csvData (rf_classFormat best) location day time))"
proof (cases "getBestClassForSlot csvData location day time (getDayGuidelines day)")
  case None
  with assms show ?thesis by (simp add: fillSubSlot_def Let_def carryOn_eq)
next
  case (Some best)
  let ?fmt = "rf_classFormat best"
  let ?dur = "getClassDuration ?fmt"
  let ?slot = "\<lparr>cs_classFormat = rf_classFormat best, cs_location = location, cs_day = day,
              cs_time = time, cs_avgParticipants = rf_avgParticipants best,
              cs_avgRevenue = rf_avgRevenue best\<rparr>"
  show ?thesis
  proof (cases "?fmt \<in> sc_classFormat ` set (filter (inCell location day time) (optimizedClasses \<sigma>))")
    case True
    with assms Some show ?thesis by (simp add: fillSubSlot_def Let_def carryOn_eq)
  next
    case False
    let ?historic = "getBestTeacherForClass csvData ?fmt location day time"
    let ?cands = "if isPeakHour time then filter isSeniorTrainer allTeachers else allTeachers"
    from assms Some False obtain fits bestTeacher where
      fits: "(case ?historic of None \<Rightarrow> Inr False
              | Some t \<Rightarrow> canAssignTeacher \<sigma> t day time ?dur ?fmt) = Inr fits"
      and bt: "(if fits then Inr ?historic
                else findM (\<lambda>teacher. canAssignTeacher \<sigma> teacher day time ?dur ?fmt) ?cands) = Inr bestTeacher"
      and fin: "(case bestTeacher of None \<Rightarrow> carryOn (\<sigma>, n)
                 | Some teacher \<Rightarrow> if teacher = [] then carryOn (\<sigma>, n)
                     else bindE (assignClass stamp ?slot teacher \<sigma>) (\<lambda>\<sigma>'. carryOn (\<sigma>', n + 1)))
                = Inr (b, \<sigma>', n')"
      by (auto simp: fillSubSlot_def Let_def bindE_Inr)
    show ?thesis
    proof (cases bestTeacher)
      case None
      with fin show ?thesis by (simp add: carryOn_eq)
    next
      case (Some teacher)
      show ?thesis
      proof (cases "teacher = []")
        case True
        with fin Some show ?thesis by (simp add: carryOn_eq)
      next
        case False
        from fin Some False have asg: "assignClass stamp ?slot teacher \<sigma> = Inr \<sigma>'" and n': "n' = n + 1"
          by (auto simp: bindE_Inr carryOn_eq)
        have can: "canAssignTeacher \<sigma> teacher day time ?dur ?fmt = Inr True
                   \<and> teacher \<in> set allTeachers \<union> set_option ?historic"
        proof (cases fits)
          case True
          with bt Some have "?historic = Some teacher" by simp
          with fits True show ?thesis by simp
        next
          case False
          with bt Some have "findM (\<lambda>teacher. canAssignTeacher \<sigma> teacher day time ?dur ?fmt) ?cands
                               = Inr (Some teacher)" by simp
          from findM_Some[OF this] show ?thesis by (auto split: if_splits)
        qed
        from \<open>getBestClassForSlot csvData location day time (getDayGuidelines day) = Some best\<close>
          \<open>?fmt \<notin> sc_classFormat ` set (filter (inCell location day time) (optimizedClasses \<sigma>))\<close>
          can asg n'
        show ?thesis by blast
      qed
    qed
  qed
qed

lemma assignClass_Inr:
  assumes "assignClass stamp classData teacher \<sigma> = Inr \<sigma>'"
  shows "optimizedClasses \<sigma>' = optimizedClasses \<sigma> @ [createdClass stamp (issued \<sigma>) classData teacher]"
    and "issued \<sigma>' = Suc (issued \<sigma>)"
    and "teacherHoursTracker \<sigma>' = AList.update teacher
           (round1 (orZero (map_of (teacherHoursTracker \<sigma>) teacher) + getClassDuration (cs_classFormat classData)))
           (teacherHoursTracker \<sigma>)"
    and "\<exists>perDay. map_of (teacherDailyHours \<sigma>) teacher = Some perDay
           \<and> teacherDailyHours \<sigma>' = AList.update teacher
               (AList.update (cs_day classData)
                  (round1 (orZero (map_of perDay (cs_day classData)) + getClassDuration (cs_classFormat classData)))
                  perDay) (teacherDailyHours \<sigma>)"
  using assms
  by (auto simp: assignClass_def Let_def bindE_Inr split: option.splits if_splits)




section \<open>Invariants of a run\<close>

subsection \<open>What every phase preserves\<close>

lemma loop_step: "bindE (forBreak body xs s) carryOn = Inr (b, s') \<longleftrightarrow> forBreak body xs s = Inr s' \<and> \<not> b"
  by (auto simp: bindE_Inr carryOn_eq)

lemma forBreak_inv_prefix:
  assumes "forBreak body xs s = Inr s'" and "Q [] s"
    and "\<And>done x rest s b s'. xs = done @ x # rest \<Longrightarrow> Q done s \<Longrightarrow> body x s = Inr (b, s')
            \<Longrightarrow> Q (done @ [x]) s'"
  shows "\<exists>done rest. xs = done @ rest \<and> Q done s'"
proof -
  have "\<exists>done rest. pre @ ys = done @ rest \<and> Q done s'"
    if "forBreak body ys t = Inr s'" "Q pre t" "xs = pre @ ys" for pre ys t
    using that
  proof (induction ys arbitrary: pre t)
    case Nil
    then show ?case by auto
  next
    case (Cons y ys)
    from Cons.prems(1) obtain b t1 where step: "body y t = Inr (b, t1)"
      by (auto split: sum.splits)
    from assms(3)[OF Cons.prems(3) Cons.prems(2) step] have Q1: "Q (pre @ [y]) t1" .
    show ?case
    proof (cases b)
      case True
      with Cons.prems(1) step have "s' = t1" by simp
      with Q1 have "pre @ y # ys = (pre @ [y]) @ ys \<and> Q (pre @ [y]) s'" by simp
      then show ?thesis by blast
    next
      case False
      with Cons.prems(1) step have "forBreak body ys t1 = Inr s'" by simp
      from Cons.IH[OF this Q1] Cons.prems(3) show ?thesis by simp
    qed
  qed
  from this[of xs s "[]"] assms(1,2) show ?thesis by simp
qed

lemma uniq_set: "set (uniq xs) = set xs"
proof -
  have "set (foldl (\<lambda>acc x. if x \<in> set acc then acc else acc @ [x]) a xs) = set a \<union> set xs" for a
    by (induction xs arbitrary: a) auto
  then show ?thesis by (simp add: uniq_def)
qed

lemma uniq_distinct: "distinct (uniq xs)"
proof -
  have "distinct a \<Longrightarrow> distinct (foldl (\<lambda>acc x. if x \<in> set acc then acc else acc @ [x]) a xs)" for a
    by (induction xs arbitrary: a) auto
  then show ?thesis by (simp add: uniq_def)
qed

lemma allTeachers_pooled: "t \<in> set (allTeachersOf csvData) \<Longrightarrow> pooled csvData t"
  by (auto simp: allTeachersOf_def uniq_set pooled_def excludedTeacher_def)

lemma default_teachers_fine: "\<forall>d\<in>set getDefaultTopClasses. \<not> excludedTeacher (dc_teacher d)"
  by code_simp

lemma default_pooled: "d \<in> set getDefaultTopClasses \<Longrightarrow> pooled csvData (dc_teacher d)"
  using default_teachers_fine by (auto simp: pooled_def)

lemma teacherStats_keys:
  "fst ` set (foldl (\<lambda>acc item. upsert (cd_teacherName item) (0, 0)
                        (\<lambda>(p, n). (p + cd_participants item, n + (1::nat))) acc) a xs)
     = fst ` set a \<union> cd_teacherName ` set xs"
  by (induction xs arbitrary: a) (auto simp: upsert_keys)

lemma getBestTeacherForClass_pooled:
  assumes "getBestTeacherForClass csvData classFormat location day time = Some teacher"
  shows "pooled csvData teacher"
proof (cases "find (\<lambda>cls. dc_classFormat cls = classFormat \<and> dc_location cls = location
                    \<and> dc_day cls = day \<and> dc_time cls = time) getDefaultTopClasses")
  case (Some d)
  then have "d \<in> set getDefaultTopClasses" by (auto simp: find_Some_iff in_set_conv_nth)
  with Some assms show ?thesis using default_pooled by (auto simp: getBestTeacherForClass_def)
next
  case None
  let ?rel = "filter (\<lambda>item. cd_cleanedClass item = classFormat
                \<and> cd_location item = location
                \<and> cd_dayOfWeek item = day
                \<and> str_includes (cd_classTime item) time
                \<and> \<not> isHostedClass (cd_cleanedClass item)
                \<and> \<not> str_includes (cd_teacherName item) ''Nishanth''
                \<and> \<not> str_includes (cd_teacherName item) ''Saniya'') csvData"
  let ?stats = "foldl (\<lambda>acc item. upsert (cd_teacherName item) (0, 0)
                        (\<lambda>(p, n). (p + cd_participants item, n + (1::nat))) acc) [] ?rel"
  let ?ranked = "js_sort (\<lambda>a b. snd b - snd a) (map (\<lambda>(teacher, p, n). (teacher, p / of_nat n)) ?stats)"
  from assms None obtain best rest where r: "?ranked = best # rest" and t: "teacher = fst best"
    by (auto simp: getBestTeacherForClass_def Let_def split: if_splits list.splits)
  from r have "best \<in> set ?ranked" by simp
  then have "best \<in> set (map (\<lambda>(teacher, p, n). (teacher, p / of_nat n)) ?stats)"
    by (simp add: js_sort_set)
  then have "fst best \<in> fst ` set ?stats" by force
  then have "teacher \<in> cd_teacherName ` set ?rel" using t teacherStats_keys[of "[]" ?rel] by simp
  then show ?thesis by (auto simp: pooled_def excludedTeacher_def)
qed


lemma classesToScheduleAt_le: "classesToScheduleAt location time \<le> maxParallel location"
  by (simp add: classesToScheduleAt_def maxParallel_def)

lemma default_cells_distinct:
  "distinct (map (\<lambda>d. (dc_location d, dc_day d, dc_time d)) getDefaultTopClasses)"
  by code_simp

lemma createdClass_fields:
  "sc_location (createdClass stamp n slot teacher) = cs_location slot"
  "sc_day (createdClass stamp n slot teacher) = cs_day slot"
  "sc_time (createdClass stamp n slot teacher) = cs_time slot"
  "sc_classFormat (createdClass stamp n slot teacher) = cs_classFormat slot"
  "sc_duration (createdClass stamp n slot teacher) = getClassDuration (cs_classFormat slot)"
  by (simp_all add: createdClass_def)

lemma placeSpecialty_cases:
  assumes "placeSpecialty stamp teacher specialty location day time \<sigma> = Inr (b, \<sigma>')"
  shows "\<sigma>' = \<sigma> \<or> (\<exists>slot. cellOpen (optimizedClasses \<sigma>) slot
            \<and> canAssignTeacher \<sigma> teacher (cs_day slot) (cs_time slot)
                 (getClassDuration (cs_classFormat slot)) (cs_classFormat slot) = Inr True
            \<and> assignClass stamp slot teacher \<sigma> = Inr \<sigma>')"
proof (cases "\<sigma>' = \<sigma>")
  case True
  then show ?thesis by simp
next
  case False
  let ?slot = "\<lparr>cs_classFormat = sp_classFormat specialty, cs_location = location, cs_day = day,
                cs_time = time, cs_avgParticipants = sp_avgParticipants specialty, cs_avgRevenue = 0\<rparr>"
  from False assms have "cellOpen (optimizedClasses \<sigma>) ?slot
      \<and> canAssignTeacher \<sigma> teacher (cs_day ?slot) (cs_time ?slot)
                 (getClassDuration (cs_classFormat ?slot)) (cs_classFormat ?slot) = Inr True
      \<and> assignClass stamp ?slot teacher \<sigma> = Inr \<sigma>'"
    by (auto simp: placeSpecialty_def Let_def bindE_Inr carryOn_eq breakLoop_eq cellOpen_def
          list_ex_iff split: if_splits)
  then show ?thesis by blast
qed

lemma placeRequired_cases:
  assumes "placeRequired stamp csvData format location day time \<sigma> = Inr (b, \<sigma>')"
  shows "\<sigma>' = \<sigma> \<or> (\<exists>slot teacher. cellOpen (optimizedClasses \<sigma>) slot \<and> pooled csvData teacher
            \<and> canAssignTeacher \<sigma> teacher (cs_day slot) (cs_time slot)
                 (getClassDuration (cs_classFormat slot)) (cs_classFormat slot) = Inr True
            \<and> assignClass stamp slot teacher \<sigma> = Inr \<sigma>')"
proof (cases "\<sigma>' = \<sigma>")
  case True
  then show ?thesis by simp
next
  case False
  let ?avg = "fst (getClassAverageForSlot csvData format location day time)"
  let ?slot = "\<lparr>cs_classFormat = format, cs_location = location, cs_day = day, cs_time = time,
                cs_avgParticipants = (if ?avg = 0 then 6 else ?avg), cs_avgRevenue = 0\<rparr>"
  from False assms obtain teacher where
    t: "getBestTeacherForClass csvData format location day time = Some teacher"
    by (cases "getBestTeacherForClass csvData format location day time")
       (auto simp: placeRequired_def Let_def carryOn_eq split: if_splits)
  from False assms t have "cellOpen (optimizedClasses \<sigma>) ?slot
      \<and> canAssignTeacher \<sigma> teacher (cs_day ?slot) (cs_time ?slot)
                 (getClassDuration (cs_classFormat ?slot)) (cs_classFormat ?slot) = Inr True
      \<and> assignClass stamp ?slot teacher \<sigma> = Inr \<sigma>'"
    by (auto simp: placeRequired_def Let_def bindE_Inr carryOn_eq breakLoop_eq cellOpen_def
          list_ex_iff split: if_splits)
  with getBestTeacherForClass_pooled[OF t] show ?thesis by blast
qed

lemma phase2_inv:
  assumes run: "phase2 stamp csvData (allTeachersOf csvData) days \<sigma>0 = Inr \<sigma>'" and P0: "P \<sigma>0"
    and assign: "\<And>\<sigma> slot teacher \<sigma>'. P \<sigma> \<Longrightarrow>
          canAssignTeacher \<sigma> teacher (cs_day slot) (cs_time slot)
             (getClassDuration (cs_classFormat slot)) (cs_classFormat slot) = Inr True \<Longrightarrow>
          cellOpen (optimizedClasses \<sigma>) slot \<Longrightarrow> pooled csvData teacher \<Longrightarrow>
          assignClass stamp slot teacher \<sigma> = Inr \<sigma>' \<Longrightarrow> P \<sigma>'"
  shows "P \<sigma>'"
proof -
  have place: "P s'" if "P s" "pooled csvData teacher"
      "placeSpecialty stamp teacher specialty location day time s = Inr (b, s')"
    for s s' teacher specialty location day time b
    using placeSpecialty_cases[OF that(3)] that(1,2) assign by blast
  have onDay: "P s'" if "P s" "pooled csvData teacher"
      "specialtyOnDay stamp teacher specialty location day s = Inr (b, s')"
    for s s' teacher specialty location day b
  proof (cases "s' = s")
    case True
    with that show ?thesis by simp
  next
    case False
    with that(3) have "forBreak (placeSpecialty stamp teacher specialty location day)
                         (getAvailableTimeSlots day) s = Inr s'"
      by (auto simp: specialtyOnDay_def loop_step carryOn_eq split: option.splits if_splits)
    then show ?thesis
      by (rule forBreak_inv[where P = P]) (use that place in blast)+
  qed
  have atLoc: "P s'" if "P s" "pooled csvData teacher"
      "specialtyAtLocation stamp days teacher specialty location s = Inr (b, s')"
    for s s' teacher specialty location b
  proof (cases "s' = s")
    case True
    with that show ?thesis by simp
  next
    case False
    with that(3) have "forBreak (specialtyOnDay stamp teacher specialty location) days s = Inr s'"
      by (auto simp: specialtyAtLocation_def loop_step carryOn_eq split: if_splits)
    then show ?thesis
      by (rule forBreak_inv[where P = P]) (use that onDay in blast)+
  qed
  have attempt: "P s'" if "P s" "pooled csvData teacher"
      "trySpecialty stamp days teacher target specialty s = Inr (b, s')"
    for s s' teacher specialty target b
  proof (cases "s' = s")
    case True
    with that show ?thesis by simp
  next
    case False
    with that(3) have "forBreak (specialtyAtLocation stamp days teacher specialty) locations s = Inr s'"
      by (auto simp: trySpecialty_def loop_step breakLoop_eq split: if_splits)
    then show ?thesis
      by (rule forBreak_inv[where P = P]) (use that atLoc in blast)+
  qed
  have raise: "P s'" if "P s" "pooled csvData teacher"
      "raiseTeacher stamp csvData days teacher s = Inr (b, s')" for s s' teacher b
  proof (cases "s' = s")
    case True
    with that show ?thesis by simp
  next
    case False
    with that(3) obtain specs where
      "forBreak (trySpecialty stamp days teacher (of_nat (maxWeeklyHours teacher))) specs s = Inr s'"
      by (auto simp: raiseTeacher_def Let_def loop_step carryOn_eq split: if_splits)
    then show ?thesis
      by (rule forBreak_inv[where P = P]) (use that attempt in blast)+
  qed
  from run[unfolded phase2_def] show ?thesis
    by (rule forBreak_inv[where P = P]) (use P0 raise allTeachers_pooled in blast)+
qed

lemma phase3_inv:
  assumes run: "phase3 stamp csvData days \<sigma>0 = Inr \<sigma>'" and P0: "P \<sigma>0"
    and assign: "\<And>\<sigma> slot teacher \<sigma>'. P \<sigma> \<Longrightarrow>
          canAssignTeacher \<sigma> teacher (cs_day slot) (cs_time slot)
             (getClassDuration (cs_classFormat slot)) (cs_classFormat slot) = Inr True \<Longrightarrow>
          cellOpen (optimizedClasses \<sigma>) slot \<Longrightarrow> pooled csvData teacher \<Longrightarrow>
          assignClass stamp slot teacher \<sigma> = Inr \<sigma>' \<Longrightarrow> P \<sigma>'"
  shows "P \<sigma>'"
proof -
  have place: "P s'" if "P s" "placeRequired stamp csvData format location day time s = Inr (b, s')"
    for s s' format location day time b
    using placeRequired_cases[OF that(2)] that(1) assign by blast
  have onDay: "P s'" if "P s" "requiredOnDay stamp csvData format location day s = Inr (b, s')"
    for s s' format location day b
  proof -
    from that(2) have "forBreak (placeRequired stamp csvData format location day)
                         (getAvailableTimeSlots day) s = Inr s'"
      by (simp add: requiredOnDay_def loop_step)
    then show ?thesis
      by (rule forBreak_inv[where P = P]) (use that place in blast)+
  qed
  have atLoc: "P s'" if "P s" "requiredAtLocation stamp csvData days format location s = Inr (b, s')"
    for s s' format location b
  proof (cases "s' = s")
    case True
    with that show ?thesis by simp
  next
    case False
    with that(2) have "forBreak (requiredOnDay stamp csvData format location) days s = Inr s'"
      by (auto simp: requiredAtLocation_def loop_step carryOn_eq split: if_splits)
    then show ?thesis
      by (rule forBreak_inv[where P = P]) (use that onDay in blast)+
  qed
  have ensure: "P s'" if "P s" "ensureFormat stamp csvData days format s = Inr (b, s')"
    for s s' format b
  proof (cases "s' = s")
    case True
    with that show ?thesis by simp
  next
    case False
    with that(2) have "forBreak (requiredAtLocation stamp csvData days format) locations s = Inr s'"
      by (auto simp: ensureFormat_def Let_def loop_step carryOn_eq split: if_splits)
    then show ?thesis
      by (rule forBreak_inv[where P = P]) (use that atLoc in blast)+
  qed
  from run[unfolded phase3_def] show ?thesis
    by (rule forBreak_inv[where P = P]) (use P0 ensure in blast)+
qed


lemma assignClass_cell:
  assumes "assignClass stamp slot teacher \<sigma> = Inr \<sigma>'"
  shows "filter (inCell location day time) (optimizedClasses \<sigma>')
           = filter (inCell location day time) (optimizedClasses \<sigma>)
             @ (if cs_location slot = location \<and> cs_day slot = day \<and> cs_time slot = time
                then [createdClass stamp (issued \<sigma>) slot teacher] else [])"
  by (simp add: assignClass_Inr(1)[OF assms] inCell_def createdClass_fields)

lemma phase1_inv:
  assumes run: "phase1 stamp csvData (allTeachersOf csvData) days \<sigma>0 = Inr \<sigma>'" and P0: "P \<sigma>0"
    and assign: "\<And>\<sigma> slot teacher \<sigma>'. P \<sigma> \<Longrightarrow>
          canAssignTeacher \<sigma> teacher (cs_day slot) (cs_time slot)
             (getClassDuration (cs_classFormat slot)) (cs_classFormat slot) = Inr True \<Longrightarrow>
          cellOpen (optimizedClasses \<sigma>) slot \<Longrightarrow> pooled csvData teacher \<Longrightarrow>
          assignClass stamp slot teacher \<sigma> = Inr \<sigma>' \<Longrightarrow> P \<sigma>'"
  shows "P \<sigma>'"
proof -
  let ?all = "allTeachersOf csvData"
  have cell: "P (fst sn')" if P: "P (fst sn)"
      and step: "fillCell stamp csvData ?all day location limit time sn = Inr (b, sn')"
    for sn sn' day location limit time b
  proof (cases "snd sn \<ge> limit")
    case True
    with step P show ?thesis by (simp add: fillCell_def breakLoop_eq)
  next
    case False
    let ?count = "\<lambda>s. length (filter (inCell location day time) (optimizedClasses s))"
    let ?r = "classesToScheduleAt location time - ?count (fst sn)"
    from step False have loop: "forBreak (fillSubSlot stamp csvData ?all location day time)
                                  [0 ..< ?r] sn = Inr sn'"
      by (simp add: fillCell_def Let_def loop_step)
    have "\<exists>done rest. [0 ..< ?r] = done @ rest
            \<and> (P (fst sn') \<and> ?count (fst sn') \<le> ?count (fst sn) + length done)"
    proof (rule forBreak_inv_prefix[OF loop,
          where Q = "\<lambda>done s. P (fst s) \<and> ?count (fst s) \<le> ?count (fst sn) + length done"])
      show "P (fst sn) \<and> ?count (fst sn) \<le> ?count (fst sn) + length ([]::nat list)"
        using P by simp
    next
      fix pre x rest s c s'
      assume split: "[0 ..< ?r] = pre @ x # rest"
        and Q: "P (fst s) \<and> ?count (fst s) \<le> ?count (fst sn) + length pre"
        and st: "fillSubSlot stamp csvData ?all location day time x s = Inr (c, s')"
      from split have "length pre < length [0 ..< ?r]" by simp
      then have room: "?count (fst sn) + length pre < classesToScheduleAt location time" by simp
      obtain \<sigma> n where s: "s = (\<sigma>, n)" by (cases s)
      obtain \<sigma>1 n1 where s': "s' = (\<sigma>1, n1)" by (cases s')
      from fillSubSlot_cases[OF st[unfolded s s']]
      show "P (fst s') \<and> ?count (fst s') \<le> ?count (fst sn) + length (pre @ [x])"
      proof (elim disjE exE conjE)
        assume "\<sigma>1 = \<sigma>" "n1 = n"
        with Q s s' show ?thesis by simp
      next
        fix best teacher
        assume fresh: "rf_classFormat best \<notin> sc_classFormat ` set (filter (inCell location day time) (optimizedClasses \<sigma>))"
          and can: "canAssignTeacher \<sigma> teacher day time (getClassDuration (rf_classFormat best)) (rf_classFormat best) = Inr True"
          and asg: "assignClass stamp \<lparr>cs_classFormat = rf_classFormat best, cs_location = location, cs_day = day,
                cs_time = time, cs_avgParticipants = rf_avgParticipants best,
                cs_avgRevenue = rf_avgRevenue best\<rparr> teacher \<sigma> = Inr \<sigma>1"
          and who: "teacher \<in> set ?all
             \<union> set_option (getBestTeacherForClass csvData (rf_classFormat best) location day time)"
        let ?slot = "\<lparr>cs_classFormat = rf_classFormat best, cs_location = location, cs_day = day,
                cs_time = time, cs_avgParticipants = rf_avgParticipants best,
                cs_avgRevenue = rf_avgRevenue best\<rparr>"
        from who have pool: "pooled csvData teacher"
          using allTeachers_pooled getBestTeacherForClass_pooled by auto
        from Q s room classesToScheduleAt_le[of location time]
        have "?count \<sigma> < maxParallel location" by simp
        with fresh have "cellOpen (optimizedClasses \<sigma>) ?slot" by (simp add: cellOpen_def)
        from assign[OF _ _ this pool asg] Q s can have P1: "P \<sigma>1" by simp
        from assignClass_cell[OF asg, of location day time]
        have "?count \<sigma>1 = ?count \<sigma> + 1" by simp
        with P1 Q s s' show ?thesis by simp
      qed
    qed
    then show ?thesis by blast
  qed
  have loc: "P (fst sn')" if "P (fst sn)"
      "fillLocation stamp csvData ?all day limit location sn = Inr (b, sn')"
    for sn sn' day location limit b
  proof -
    from that(2) have "forBreak (fillCell stamp csvData ?all day location limit)
                         (getAvailableTimeSlots day) sn = Inr sn'"
      by (simp add: fillLocation_def loop_step)
    then show ?thesis
      by (rule forBreak_inv[where P = "\<lambda>s. P (fst s)"]) (use that cell in blast)+
  qed
  have day: "P s'" if "P s" "fillDay stamp csvData ?all day s = Inr (b, s')" for s s' day b
  proof -
    from that(2) obtain limit n sn' where
      "forBreak (fillLocation stamp csvData ?all day limit) locations (s, n) = Inr sn'"
      and s': "s' = fst sn'"
      by (auto simp: fillDay_def Let_def bindE_Inr carryOn_eq)
    then have "P (fst sn')"
      by - (erule forBreak_inv[where P = "\<lambda>s. P (fst s)"], use that loc in auto)
    with s' show ?thesis by simp
  qed
  from run[unfolded phase1_def] show ?thesis
    by (rule forBreak_inv[where P = P]) (use P0 day in blast)+
qed

lemma lockClass_cases:
  assumes "lockClass stamp options x s = Inr (b, s')"
  shows "s' = s \<or> (canAssignTeacher s (dc_teacher x) (dc_day x) (dc_time x)
                        (getClassDuration (dc_classFormat x)) (dc_classFormat x) = Inr True
                 \<and> assignClass stamp (defaultSlot x) (dc_teacher x) s = Inr s')"
proof (cases "s' = s")
  case True
  then show ?thesis by simp
next
  case False
  with assms have "\<not> (case targetDayOf options of None \<Rightarrow> False | Some d \<Rightarrow> dc_day x \<noteq> d)"
    by (auto simp: lockClass_def carryOn_eq)
  with assms obtain ok where
    c: "canAssignTeacher s (dc_teacher x) (dc_day x) (dc_time x)
                        (getClassDuration (dc_classFormat x)) (dc_classFormat x) = Inr ok"
    and r: "(if ok then bindE (assignClass stamp (defaultSlot x) (dc_teacher x) s) carryOn
            else carryOn s) = Inr (b, s')"
    by (auto simp: lockClass_def bindE_Inr)
  from r False have "ok" by (auto simp: carryOn_eq split: if_splits)
  with r c show ?thesis by (auto simp: bindE_Inr carryOn_eq)
qed

lemma phase0_inv:
  assumes run: "phase0 stamp options \<sigma>0 = Inr \<sigma>'" and P0: "P \<sigma>0"
    and empty: "optimizedClasses \<sigma>0 = []"
    and assign: "\<And>\<sigma> slot teacher \<sigma>'. P \<sigma> \<Longrightarrow>
          canAssignTeacher \<sigma> teacher (cs_day slot) (cs_time slot)
             (getClassDuration (cs_classFormat slot)) (cs_classFormat slot) = Inr True \<Longrightarrow>
          cellOpen (optimizedClasses \<sigma>) slot \<Longrightarrow> pooled csvData teacher \<Longrightarrow>
          assignClass stamp slot teacher \<sigma> = Inr \<sigma>' \<Longrightarrow> P \<sigma>'"
  shows "P \<sigma>'"
proof -
  let ?cell = "\<lambda>d. (dc_location d, dc_day d, dc_time d)"
  let ?at = "\<lambda>c. (sc_location c, sc_day c, sc_time c)"
  let ?Q = "\<lambda>done s. P s \<and> ?at ` set (optimizedClasses s) \<subseteq> ?cell ` set done"
  have "\<exists>done rest. getDefaultTopClasses = done @ rest \<and> ?Q done \<sigma>'"
  proof (rule forBreak_inv_prefix[OF run[unfolded phase0_def], where Q = ?Q])
    show "?Q [] \<sigma>0" using P0 empty by simp
  next
    fix pre x rest s b s'
    assume split: "getDefaultTopClasses = pre @ x # rest" and Q: "?Q pre s"
      and st: "lockClass stamp options x s = Inr (b, s')"
    from Q have PS: "P s" and sub: "?at ` set (optimizedClasses s) \<subseteq> ?cell ` set pre"
      by simp_all
    from lockClass_cases[OF st] show "?Q (pre @ [x]) s'"
    proof (elim disjE conjE)
      assume "s' = s"
      with PS sub show ?thesis by auto
    next
      assume can: "canAssignTeacher s (dc_teacher x) (dc_day x) (dc_time x)
                        (getClassDuration (dc_classFormat x)) (dc_classFormat x) = Inr True"
        and asg: "assignClass stamp (defaultSlot x) (dc_teacher x) s = Inr s'"
      have "distinct (map ?cell (pre @ x # rest))"
        using default_cells_distinct by (simp only: split)
      then have new: "?cell x \<notin> ?cell ` set pre" by simp
      have "?at c \<noteq> ?cell x" if "c \<in> set (optimizedClasses s)" for c
      proof -
        from that have "?at c \<in> ?at ` set (optimizedClasses s)" by (rule imageI)
        with sub have "?at c \<in> ?cell ` set pre" by (rule subsetD)
        with new show ?thesis by metis
      qed
      then have "filter (inCell (dc_location x) (dc_day x) (dc_time x)) (optimizedClasses s) = []"
        by (simp add: filter_empty_conv inCell_def)
      then have opn: "cellOpen (optimizedClasses s) (defaultSlot x)"
        by (simp add: cellOpen_def defaultSlot_def maxParallel_def)
      have "x \<in> set (pre @ x # rest)" by simp
      then have "x \<in> set getDefaultTopClasses" by (simp only: split)
      then have pool: "pooled csvData (dc_teacher x)" by (rule default_pooled)
      from can have can': "canAssignTeacher s (dc_teacher x) (cs_day (defaultSlot x)) (cs_time (defaultSlot x))
             (getClassDuration (cs_classFormat (defaultSlot x))) (cs_classFormat (defaultSlot x)) = Inr True"
        by (simp add: defaultSlot_def)
      from assign[OF PS can' opn pool asg] have P': "P s'" .
      have at: "?at (createdClass stamp (issued s) (defaultSlot x) (dc_teacher x)) = ?cell x"
        by (simp add: createdClass_fields defaultSlot_def)
      have "set (optimizedClasses s')
              = insert (createdClass stamp (issued s) (defaultSlot x) (dc_teacher x)) (set (optimizedClasses s))"
        by (simp add: assignClass_Inr(1)[OF asg])
      then have "?at ` set (optimizedClasses s') = insert (?cell x) (?at ` set (optimizedClasses s))"
        using at by simp
      with sub have "?at ` set (optimizedClasses s') \<subseteq> ?cell ` set (pre @ [x])" by auto
      with P' show ?thesis by simp
    qed
  qed
  then show ?thesis by blast
qed

lemma creation_inv:
  assumes run: "creationPhases stamp csvData options = Inr \<sigma>'"
    and P0: "P (initialState (allTeachersOf csvData) (daysOf options))"
    and assign: "\<And>\<sigma> slot teacher \<sigma>'. P \<sigma> \<Longrightarrow>
          canAssignTeacher \<sigma> teacher (cs_day slot) (cs_time slot)
             (getClassDuration (cs_classFormat slot)) (cs_classFormat slot) = Inr True \<Longrightarrow>
          cellOpen (optimizedClasses \<sigma>) slot \<Longrightarrow> pooled csvData teacher \<Longrightarrow>
          assignClass stamp slot teacher \<sigma> = Inr \<sigma>' \<Longrightarrow> P \<sigma>'"
  shows "P \<sigma>'"
proof -
  from run obtain s0 s1 s2 where
    r0: "phase0 stamp options (initialState (allTeachersOf csvData) (daysOf options)) = Inr s0"
    and r1: "phase1 stamp csvData (allTeachersOf csvData) (daysOf options) s0 = Inr s1"
    and r2: "phase2 stamp csvData (allTeachersOf csvData) (daysOf options) s1 = Inr s2"
    and r3: "phase3 stamp csvData (daysOf options) s2 = Inr \<sigma>'"
    by (auto simp: creationPhases_def bindE_Inr)
  have "P s0"
  proof (rule phase0_inv[where P = P and csvData = csvData, OF r0 P0])
    show "optimizedClasses (initialState (allTeachersOf csvData) (daysOf options)) = []"
      by (simp add: initialState_def)
  qed (rule assign; assumption)
  then have "P s1"
    by (rule phase1_inv[where P = P, OF r1]) (rule assign; assumption)
  then have "P s2"
    by (rule phase2_inv[where P = P, OF r2]) (rule assign; assumption)
  then show ?thesis
    by (rule phase3_inv[where P = P, OF r3]) (rule assign; assumption)
qed


lemma indicesWhere_iff: "i \<in> set (indicesWhere p xs) \<longleftrightarrow> i < length xs \<and> p (xs ! i)"
  by (auto simp: indicesWhere_def)

lemma indicesWhere_distinct: "distinct (indicesWhere p xs)"
  by (simp add: indicesWhere_def)

lemma sameButTime_fields:
  assumes "sameButTime c c'"
  shows "sc_location c' = sc_location c" "sc_day c' = sc_day c" "sc_id c' = sc_id c"
    "sc_classFormat c' = sc_classFormat c" "sc_duration c' = sc_duration c"
    "fullName c' = fullName c"
proof -
  from assms have e: "c' = c\<lparr>sc_time := sc_time c'\<rparr>" by (simp add: sameButTime_def)
  show "sc_location c' = sc_location c" by (subst e) simp
  show "sc_day c' = sc_day c" by (subst e) simp
  show "sc_id c' = sc_id c" by (subst e) simp
  show "sc_classFormat c' = sc_classFormat c" by (subst e) simp
  show "sc_duration c' = sc_duration c" by (subst e) simp
  show "fullName c' = fullName c" by (subst e) (simp add: fullName_def)
qed

lemma phase5_inv:
  assumes run: "phase5 days \<sigma>0 = Inr \<sigma>'" and P0: "P \<sigma>0"
    and move: "\<And>\<sigma> location day i newTime b \<sigma>'. P \<sigma> \<Longrightarrow> i < length (optimizedClasses \<sigma>) \<Longrightarrow>
          sc_location (optimizedClasses \<sigma> ! i) = location \<Longrightarrow>
          sc_day (optimizedClasses \<sigma> ! i) = day \<Longrightarrow>
          moveClass location day i newTime \<sigma> = Inr (b, \<sigma>') \<Longrightarrow> P \<sigma>'"
  shows "P \<sigma>'"
proof -
  have bd: "P s'" if Ps: "P s" and run: "balanceDay location day s = Inr s'" for s s' location day
  proof (cases "s' = s")
    case True
    with Ps show ?thesis by simp
  next
    case False
    let ?m = "fst (getShiftBalance (optimizedClasses s) location day)"
    let ?e = "snd (getShiftBalance (optimizedClasses s) location day)"
    let ?slots = "targetSlots (?m > ?e) day"
    let ?Q = "\<lambda>t. P t \<and> retimedWithin ?slots s t"
    from False run obtain k p where
      loop: "forBreak (balanceClass location day ?slots)
               (take k (indicesWhere (\<lambda>cls. sc_location cls = location \<and> sc_day cls = day \<and> p cls)
                          (optimizedClasses s))) s = Inr s'"
      by (auto simp: balanceDay_def Let_def split: if_splits)
    have "?Q s'"
    proof (rule forBreak_inv[OF loop, where P = ?Q])
      show "?Q s" using Ps by (simp add: retimedWithin_refl)
    next
      fix i t b t'
      assume i: "i \<in> set (take k (indicesWhere (\<lambda>cls. sc_location cls = location \<and> sc_day cls = day \<and> p cls)
                          (optimizedClasses s)))"
        and Q: "?Q t" and st: "balanceClass location day ?slots i t = Inr (b, t')"
      from i have "i \<in> set (indicesWhere (\<lambda>cls. sc_location cls = location \<and> sc_day cls = day \<and> p cls)
                          (optimizedClasses s))" by (rule in_set_takeD)
      then have il: "i < length (optimizedClasses s)"
        and at: "sc_location (optimizedClasses s ! i) = location" "sc_day (optimizedClasses s ! i) = day"
        by (simp_all add: indicesWhere_iff)
      from st have inner: "forBreak (moveClass location day i) ?slots t = Inr t'"
        by (simp add: balanceClass_def loop_step)
      show "?Q t'"
      proof (rule forBreak_inv[OF inner, where P = ?Q])
        show "?Q t" by (rule Q)
      next
        fix newTime u c u'
        assume nt: "newTime \<in> set ?slots" and Qu: "?Q u"
          and mv: "moveClass location day i newTime u = Inr (c, u')"
        from Qu have all2: "list_all2 sameButTime (optimizedClasses s) (optimizedClasses u)"
          by (simp add: retimedWithin_def)
        then have len: "length (optimizedClasses u) = length (optimizedClasses s)"
          by (simp add: list_all2_lengthD)
        from all2 il have "sameButTime (optimizedClasses s ! i) (optimizedClasses u ! i)"
          by (simp add: list_all2_conv_all_nth)
        from sameButTime_fields(1,2)[OF this] at
        have "sc_location (optimizedClasses u ! i) = location" "sc_day (optimizedClasses u ! i) = day"
          by simp_all
        with move[OF _ _ _ _ mv] Qu il len have "P u'" by simp
        moreover from Qu have "retimedWithin ?slots s u" by simp
        then have "retimedWithin ?slots s u'" using mv nt by (rule retimedWithin_move)
        ultimately show "?Q u'" by simp
      qed
    qed
    then show ?thesis by simp
  qed
  have bl: "P s'" if "P s" "balanceLocation days location s = Inr (b, s')" for s s' location b
  proof -
    from that(2) have "forBreak (\<lambda>day \<sigma>. bindE (balanceDay location day \<sigma>) carryOn) days s = Inr s'"
      by (simp add: balanceLocation_def loop_step)
    then show ?thesis
    proof (rule forBreak_inv[where P = P])
      show "P s" by (rule that(1))
    next
      fix day t c t'
      assume "P t" "bindE (balanceDay location day t) carryOn = Inr (c, t')"
      then show "P t'" using bd by (auto simp: bindE_Inr carryOn_eq)
    qed
  qed
  from run[unfolded phase5_def] show ?thesis
    by (rule forBreak_inv[where P = P]) (use P0 bl in blast)+
qed


lemma reassignClass_cases:
  assumes "reassignClass teacher target day i \<sigma> = Inr \<sigma>'"
  shows "\<sigma>' = \<sigma> \<or>
     (\<exists>k fromWeek toWeek.
         findIndex (\<lambda>c. sc_id c = sc_id (optimizedClasses \<sigma> ! i)) (optimizedClasses \<sigma>) = Some k
       \<and> optimizedClasses \<sigma>' = (optimizedClasses \<sigma>)[k := (optimizedClasses \<sigma> ! k)
             \<lparr>sc_teacherFirstName := fst (splitName target),
              sc_teacherLastName := snd (splitName target)\<rparr>]
       \<and> map_of (teacherHoursTracker \<sigma>) teacher = Some fromWeek
       \<and> map_of (AList.update teacher (fromWeek - sc_duration (optimizedClasses \<sigma> ! i))
                    (teacherHoursTracker \<sigma>)) target = Some toWeek
       \<and> teacherHoursTracker \<sigma>' =
            AList.update target (toWeek + sc_duration (optimizedClasses \<sigma> ! i))
              (AList.update teacher (fromWeek - sc_duration (optimizedClasses \<sigma> ! i))
                 (teacherHoursTracker \<sigma>))
       \<and> issued \<sigma>' = issued \<sigma>)"
proof (cases "findIndex (\<lambda>c. sc_id c = sc_id (optimizedClasses \<sigma> ! i)) (optimizedClasses \<sigma>)")
  case None
  with assms show ?thesis by (simp add: reassignClass_def Let_def)
next
  case (Some k)
  with assms show ?thesis
    by (simp add: reassignClass_def Let_def split: if_splits option.splits) auto
qed

lemma reassignClass_length:
  assumes "reassignClass teacher target day i \<sigma> = Inr \<sigma>'"
  shows "length (optimizedClasses \<sigma>') = length (optimizedClasses \<sigma>)"
  using reassignClass_cases[OF assms] by auto

lemma reassignClass_others:
  assumes "reassignClass teacher target day i \<sigma> = Inr \<sigma>'"
    and "distinct (map sc_id (optimizedClasses \<sigma>))" "i < length (optimizedClasses \<sigma>)" "j \<noteq> i"
  shows "optimizedClasses \<sigma>' ! j = optimizedClasses \<sigma> ! j"
  using reassignClass_cases[OF assms(1)]
proof (elim disjE exE conjE)
  assume "\<sigma>' = \<sigma>"
  then show ?thesis by simp
next
  fix k fromWeek toWeek
  assume k: "findIndex (\<lambda>c. sc_id c = sc_id (optimizedClasses \<sigma> ! i)) (optimizedClasses \<sigma>) = Some k"
    and upd: "optimizedClasses \<sigma>' = (optimizedClasses \<sigma>)[k := (optimizedClasses \<sigma> ! k)
             \<lparr>sc_teacherFirstName := fst (splitName target),
              sc_teacherLastName := snd (splitName target)\<rparr>]"
  from findIndex_distinct[OF assms(2,3) k] have "k = i" .
  with upd assms(4) show ?thesis by simp
qed


lemma moveToBusiest_cases:
  assumes "moveToBusiest busiest teacher day i \<sigma> = Inr (b, \<sigma>')"
  shows "\<sigma>' = \<sigma> \<or> (\<exists>t\<in>set busiest.
            canAssignTeacher \<sigma> (fst t) day (sc_time (optimizedClasses \<sigma> ! i))
               (sc_duration (optimizedClasses \<sigma> ! i)) (sc_classFormat (optimizedClasses \<sigma> ! i)) = Inr True
          \<and> reassignClass teacher (fst t) day i \<sigma> = Inr \<sigma>')"
proof -
  let ?can = "\<lambda>t. canAssignTeacher \<sigma> (fst t) day (sc_time (optimizedClasses \<sigma> ! i))
               (sc_duration (optimizedClasses \<sigma> ! i)) (sc_classFormat (optimizedClasses \<sigma> ! i))"
  from assms obtain found where f: "findM ?can busiest = Inr found"
    and r: "(case found of None \<Rightarrow> carryOn \<sigma>
             | Some t \<Rightarrow> bindE (reassignClass teacher (fst t) day i \<sigma>) carryOn) = Inr (b, \<sigma>')"
    by (auto simp: moveToBusiest_def Let_def bindE_Inr)
  show ?thesis
  proof (cases found)
    case None
    with r show ?thesis by (simp add: carryOn_eq)
  next
    case (Some t)
    with f have "findM ?can busiest = Inr (Some t)" by simp
    from findM_Some[OF this] have "t \<in> set busiest" "?can t = Inr True" by simp_all
    moreover from r Some have "reassignClass teacher (fst t) day i \<sigma> = Inr \<sigma>'"
      by (auto simp: bindE_Inr carryOn_eq)
    ultimately show ?thesis by blast
  qed
qed

lemma consolidateShift_inv:
  assumes run: "consolidateShift inShift location day \<sigma>0 = Inr \<sigma>'" and P0: "P \<sigma>0"
    and names: "\<And>\<sigma> c. P \<sigma> \<Longrightarrow> c \<in> set (optimizedClasses \<sigma>) \<Longrightarrow> G (fullName c)"
    and ids: "\<And>\<sigma>. K \<Longrightarrow> P \<sigma> \<Longrightarrow> distinct (map sc_id (optimizedClasses \<sigma>))"
    and step: "\<And>\<sigma> teacher target day i \<sigma>'. P \<sigma> \<Longrightarrow> G target \<Longrightarrow> i < length (optimizedClasses \<sigma>) \<Longrightarrow>
          (K \<longrightarrow> fullName (optimizedClasses \<sigma> ! i) = teacher) \<Longrightarrow>
          canAssignTeacher \<sigma> target day (sc_time (optimizedClasses \<sigma> ! i))
             (sc_duration (optimizedClasses \<sigma> ! i)) (sc_classFormat (optimizedClasses \<sigma> ! i)) = Inr True \<Longrightarrow>
          reassignClass teacher target day i \<sigma> = Inr \<sigma>' \<Longrightarrow> P \<sigma>'"
  shows "P \<sigma>'"
proof (cases "\<sigma>' = \<sigma>0")
  case True
  with P0 show ?thesis by simp
next
  case False
  let ?sc = "indicesWhere (\<lambda>cls. sc_location cls = location \<and> sc_day cls = day
                            \<and> inShift (sc_time cls)) (optimizedClasses \<sigma>0)"
  let ?names = "map (\<lambda>i. fullName (optimizedClasses \<sigma>0 ! i)) ?sc"
  let ?counts = "js_sort (\<lambda>a b. of_nat (snd a) - of_nat (snd b))
                  (map (\<lambda>teacher. (teacher, length (filter (\<lambda>n. n = teacher) ?names))) (uniq ?names))"
  let ?busiest = "drop (length ?counts - 2) ?counts"
  let ?fewest = "take (length ?counts - 2) ?counts"
  let ?R = "\<lambda>s. P s \<and> length (optimizedClasses s) = length (optimizedClasses \<sigma>0)"
  from run False have loop: "forBreak (consolidateTeacher ?sc ?busiest day) ?fewest \<sigma>0 = Inr \<sigma>'"
    by (simp add: consolidateShift_def Let_def split: if_splits)
  have busy: "G (fst t)" if "t \<in> set ?busiest" for t
  proof -
    from that have "t \<in> set ?counts" by (rule in_set_dropD)
    then have "fst t \<in> set (uniq ?names)" by (auto simp: js_sort_set)
    then have "fst t \<in> set ?names" by (simp add: uniq_set)
    then obtain i where "i \<in> set ?sc" "fst t = fullName (optimizedClasses \<sigma>0 ! i)" by auto
    then have "i < length (optimizedClasses \<sigma>0)" "fst t = fullName (optimizedClasses \<sigma>0 ! i)"
      by (simp_all add: indicesWhere_iff)
    then show ?thesis using names[OF P0, of "optimizedClasses \<sigma>0 ! i"] by simp
  qed
  have "?R \<sigma>'"
  proof (rule forBreak_inv[OF loop, where P = ?R])
    show "?R \<sigma>0" using P0 by simp
  next
    fix entry s b s'
    assume R: "?R s" and st: "consolidateTeacher ?sc ?busiest day entry s = Inr (b, s')"
    let ?teacher = "fst entry"
    let ?tc = "filter (\<lambda>i. fullName (optimizedClasses s ! i) = ?teacher) ?sc"
    let ?Q = "\<lambda>pre u. ?R u \<and> (K \<longrightarrow> (\<forall>i\<in>set ?tc - set pre. fullName (optimizedClasses u ! i) = ?teacher))"
    from st have inner: "forBreak (moveToBusiest ?busiest ?teacher day) ?tc s = Inr s'"
      by (simp add: consolidateTeacher_def Let_def loop_step)
    have "\<exists>done rest. ?tc = done @ rest \<and> ?Q done s'"
    proof (rule forBreak_inv_prefix[OF inner, where Q = ?Q])
      show "?Q [] s" using R by simp
    next
      fix pre x rest u c u'
      assume split: "?tc = pre @ x # rest" and Q: "?Q pre u"
        and mv: "moveToBusiest ?busiest ?teacher day x u = Inr (c, u')"
      from Q have Pu: "P u" and len: "length (optimizedClasses u) = length (optimizedClasses \<sigma>0)"
        by simp_all
      have "x \<in> set ?tc" by (simp only: split) simp
      then have "x \<in> set ?sc" by simp
      then have xl: "x < length (optimizedClasses u)" using len by (simp add: indicesWhere_iff)
      have "distinct ?tc" by (simp add: indicesWhere_distinct)
      then have "distinct (pre @ x # rest)" by (simp only: split)
      then have xpre: "x \<notin> set pre" by simp
      with \<open>x \<in> set ?tc\<close> Q have own: "K \<longrightarrow> fullName (optimizedClasses u ! x) = ?teacher" by simp
      from moveToBusiest_cases[OF mv] show "?Q (pre @ [x]) u'"
      proof (elim disjE bexE conjE)
        assume "u' = u"
        with Q show ?thesis by simp
      next
        fix t
        assume t: "t \<in> set ?busiest"
          and can: "canAssignTeacher u (fst t) day (sc_time (optimizedClasses u ! x))
               (sc_duration (optimizedClasses u ! x)) (sc_classFormat (optimizedClasses u ! x)) = Inr True"
          and re: "reassignClass ?teacher (fst t) day x u = Inr u'"
        from step[OF Pu busy[OF t] xl own can re] have P': "P u'" .
        from reassignClass_length[OF re] len
        have len': "length (optimizedClasses u') = length (optimizedClasses \<sigma>0)" by simp
        have "fullName (optimizedClasses u' ! i) = ?teacher"
          if K "i \<in> set ?tc - set (pre @ [x])" for i
        proof -
          from that(2) have "i \<noteq> x" "i \<in> set ?tc - set pre" by auto
          from reassignClass_others[OF re ids[OF that(1) Pu] xl this(1)] this(2) Q that(1)
          show ?thesis by simp
        qed
        with P' len' show ?thesis by blast
      qed
    qed
    then show "?R s'" by blast
  qed
  then show ?thesis by simp
qed

lemma phase4_inv:
  assumes run: "phase4 days \<sigma>0 = Inr \<sigma>'" and P0: "P \<sigma>0"
    and names: "\<And>\<sigma> c. P \<sigma> \<Longrightarrow> c \<in> set (optimizedClasses \<sigma>) \<Longrightarrow> G (fullName c)"
    and ids: "\<And>\<sigma>. K \<Longrightarrow> P \<sigma> \<Longrightarrow> distinct (map sc_id (optimizedClasses \<sigma>))"
    and step: "\<And>\<sigma> teacher target day i \<sigma>'. P \<sigma> \<Longrightarrow> G target \<Longrightarrow> i < length (optimizedClasses \<sigma>) \<Longrightarrow>
          (K \<longrightarrow> fullName (optimizedClasses \<sigma> ! i) = teacher) \<Longrightarrow>
          canAssignTeacher \<sigma> target day (sc_time (optimizedClasses \<sigma> ! i))
             (sc_duration (optimizedClasses \<sigma> ! i)) (sc_classFormat (optimizedClasses \<sigma> ! i)) = Inr True \<Longrightarrow>
          reassignClass teacher target day i \<sigma> = Inr \<sigma>' \<Longrightarrow> P \<sigma>'"
  shows "P \<sigma>'"
proof -
  have shift: "P s'" if "P s" "consolidateShift inShift location day s = Inr s'"
    for s s' inShift location day
    by (rule consolidateShift_inv[where P = P and G = G and K = K, OF that(2,1)])
       (rule names ids step; assumption)+
  have cday: "P s'" if "P s" "consolidateDay location day s = Inr (b, s')" for s s' location day b
  proof -
    from that(2) obtain s1 where "consolidateShift isMorningSlot location day s = Inr s1"
      "consolidateShift isEveningSlot location day s1 = Inr s'"
      by (auto simp: consolidateDay_def bindE_Inr carryOn_eq)
    with that(1) shift show ?thesis by blast
  qed
  have cloc: "P s'" if "P s" "consolidateLocation days location s = Inr (b, s')" for s s' location b
  proof -
    from that(2) have "forBreak (consolidateDay location) days s = Inr s'"
      by (simp add: consolidateLocation_def loop_step)
    then show ?thesis
      by (rule forBreak_inv[where P = P]) (use that cday in blast)+
  qed
  from run[unfolded phase4_def] show ?thesis
    by (rule forBreak_inv[where P = P]) (use P0 cloc in blast)+
qed


lemma split_on_nonempty: "split_on sep s \<noteq> []"
  by (induction s) (auto split: list.splits)

lemma join_split: "join_with [sep] (split_on sep s) = s"
proof (induction s)
  case Nil
  then show ?case by simp
next
  case (Cons c cs)
  obtain w ws where sp: "split_on sep cs = w # ws"
    using split_on_nonempty[of sep cs] by (cases "split_on sep cs") auto
  with Cons show ?case by (cases ws) auto
qed

lemma split_on_single: "split_on sep s = [w] \<longleftrightarrow> (sep \<notin> set s \<and> w = s)"
proof (induction s arbitrary: w)
  case Nil
  then show ?case by auto
next
  case (Cons c cs)
  obtain v vs where sp: "split_on sep cs = v # vs"
    using split_on_nonempty[of sep cs] by (cases "split_on sep cs") auto
  show ?case
  proof (cases "c = sep")
    case True
    then show ?thesis by (simp add: sp)
  next
    case False
    with Cons[of v] Cons[of cs] sp show ?thesis by auto
  qed
qed

lemma scheduleName_eq:
  "scheduleName t = (if CHR '' '' \<in> set t then t else t @ '' '')"
proof -
  obtain w ws where sp: "split_on (CHR '' '') t = w # ws"
    using split_on_nonempty[of "CHR '' ''" t] by (cases "split_on (CHR '' '') t") auto
  show ?thesis
  proof (cases ws)
    case Nil
    with sp have "CHR '' '' \<notin> set t \<and> w = t" by (simp add: split_on_single)
    with sp Nil show ?thesis by (simp add: scheduleName_def splitName_def)
  next
    case (Cons v vs)
    with sp have "\<not> (\<exists>u. split_on (CHR '' '') t = [u])" by simp
    then have "CHR '' '' \<in> set t" by (simp add: split_on_single)
    moreover from join_split[of "CHR '' ''" t] sp Cons have "w @ '' '' @ join_with '' '' (v # vs) = t"
      by simp
    ultimately show ?thesis using sp Cons by (simp add: scheduleName_def splitName_def)
  qed
qed

lemma scheduleName_spaced: "CHR '' '' \<in> set (scheduleName t)"
  by (simp add: scheduleName_eq)

lemma scheduleName_idem: "scheduleName (scheduleName t) = scheduleName t"
  by (simp add: scheduleName_eq)

lemma includes_trailing_space:
  assumes "sub \<noteq> []" "last sub \<noteq> CHR '' ''"
  shows "str_includes (t @ '' '') sub \<longleftrightarrow> str_includes t sub"
proof
  assume "str_includes (t @ '' '') sub"
  then obtain p q where e: "t @ '' '' = p @ sub @ q" by (auto simp: str_includes_iff)
  show "str_includes t sub"
  proof (cases q rule: rev_cases)
    case Nil
    with e have "t @ '' '' = p @ sub" by simp
    with assms have False by (metis append_is_Nil_conv last_appendR last_snoc)
    then show ?thesis ..
  next
    case (snoc q' c)
    with e have "t @ '' '' = (p @ sub @ q') @ [c]" by simp
    then have "t = p @ sub @ q'" by simp
    then show ?thesis by (auto simp: str_includes_iff)
  qed
next
  assume "str_includes t sub"
  then obtain p q where "t = p @ sub @ q" by (auto simp: str_includes_iff)
  then have "t @ '' '' = p @ sub @ (q @ '' '')" by simp
  then show "str_includes (t @ '' '') sub" unfolding str_includes_iff by blast
qed

lemma excluded_scheduleName: "excludedTeacher (scheduleName t) = excludedTeacher t"
  by (simp add: scheduleName_eq excludedTeacher_def includes_trailing_space
           del: str_includes.simps)

lemma fullName_created: "fullName (createdClass stamp n slot teacher) = scheduleName teacher"
  by (simp add: fullName_def createdClass_def scheduleName_def)

lemma pooled_spaced_name:
  assumes "pooled csvData t"
  shows "\<not> excludedTeacher (scheduleName t)"
  using assms by (simp add: excluded_scheduleName pooled_def)

lemma run_no_excluded:
  assumes run: "runPhases stamp csvData options = Inr \<sigma>'"
  shows "\<forall>c\<in>set (optimizedClasses \<sigma>'). \<not> excludedTeacher (fullName c)"
proof -
  let ?P = "\<lambda>s. \<forall>c\<in>set (optimizedClasses s). \<not> excludedTeacher (fullName c)"
  from run obtain s3 s4 where c: "creationPhases stamp csvData options = Inr s3"
    and p4: "phase4 (daysOf options) s3 = Inr s4" and p5: "phase5 (daysOf options) s4 = Inr \<sigma>'"
    by (auto simp: runPhases_def bindE_Inr)
  have "?P s3"
  proof (rule creation_inv[OF c, where P = ?P])
    show "?P (initialState (allTeachersOf csvData) (daysOf options))"
      by (simp add: initialState_def)
  next
    fix \<sigma> slot teacher \<sigma>1
    assume "?P \<sigma>" "pooled csvData teacher" "assignClass stamp slot teacher \<sigma> = Inr \<sigma>1"
    then show "?P \<sigma>1"
      by (auto simp: assignClass_Inr(1) fullName_created pooled_spaced_name)
  qed
  have "?P s4"
  proof (rule phase4_inv[OF p4, where P = ?P and K = False and G = "\<lambda>n. \<not> excludedTeacher n"])
    show "?P s3" by fact
  next
    fix \<sigma> teacher target day i \<sigma>1
    assume P: "?P \<sigma>" and G: "\<not> excludedTeacher target"
      and re: "reassignClass teacher target day i \<sigma> = Inr \<sigma>1"
    from reassignClass_cases[OF re] show "?P \<sigma>1"
    proof (elim disjE exE conjE)
      assume "\<sigma>1 = \<sigma>"
      with P show ?thesis by simp
    next
      fix k fromWeek toWeek
      assume upd: "optimizedClasses \<sigma>1 = (optimizedClasses \<sigma>)[k := (optimizedClasses \<sigma> ! k)
             \<lparr>sc_teacherFirstName := fst (splitName target),
              sc_teacherLastName := snd (splitName target)\<rparr>]"
      have "fullName ((optimizedClasses \<sigma> ! k)
             \<lparr>sc_teacherFirstName := fst (splitName target),
              sc_teacherLastName := snd (splitName target)\<rparr>) = scheduleName target"
        by (simp add: fullName_def scheduleName_def)
      with G have "\<not> excludedTeacher (fullName ((optimizedClasses \<sigma> ! k)
             \<lparr>sc_teacherFirstName := fst (splitName target),
              sc_teacherLastName := snd (splitName target)\<rparr>))"
        by (simp add: excluded_scheduleName)
      moreover have "set ((optimizedClasses \<sigma>)[k := (optimizedClasses \<sigma> ! k)
             \<lparr>sc_teacherFirstName := fst (splitName target),
              sc_teacherLastName := snd (splitName target)\<rparr>])
          \<subseteq> insert ((optimizedClasses \<sigma> ! k)
             \<lparr>sc_teacherFirstName := fst (splitName target),
              sc_teacherLastName := snd (splitName target)\<rparr>) (set (optimizedClasses \<sigma>))"
        by (rule set_update_subset_insert)
      ultimately show ?thesis using P unfolding upd by blast
    qed
  qed simp_all
  from phase5_frame[OF p5] have all2: "list_all2 sameButTime (optimizedClasses s4) (optimizedClasses \<sigma>')"
    by simp
  show ?thesis
  proof
    fix c assume "c \<in> set (optimizedClasses \<sigma>')"
    then obtain i where i: "i < length (optimizedClasses \<sigma>')" "c = optimizedClasses \<sigma>' ! i"
      by (auto simp: in_set_conv_nth)
    with all2 have "sameButTime (optimizedClasses s4 ! i) c" "i < length (optimizedClasses s4)"
      by (simp_all add: list_all2_conv_all_nth)
    with sameButTime_fields(6)[OF this(1)] \<open>?P s4\<close> show "\<not> excludedTeacher (fullName c)"
      by (metis nth_mem)
  qed
qed


subsection \<open>Excluded teachers\<close>

lemma thursday_run:
  "generateIntelligentSchedule tallyStamp rivalRecords [] \<lparr>opt_targetDay = Some ''Thursday''\<rparr>
     = Inr thursdaySchedule"
  by code_simp

lemma uniqueTeachers_set:
  "set (getUniqueTeachers csvData customTeachers)
     = {t \<in> cd_teacherName ` set csvData. \<not> excludedTeacher t}
       \<union> (\<lambda>t. ct_firstName t @ '' '' @ ct_lastName t) ` set customTeachers"
  by (auto simp: getUniqueTeachers_def Let_def uniq_set excludedTeacher_def)

text \<open>
  Claim C10, as amended. No class of a schedule the generator returns carries a teacher
  name that contains \<open>Nishanth\<close> or \<open>Saniya\<close>, and \<open>getBestTeacherForClass\<close> never chooses
  such a teacher. \<open>getUniqueTeachers\<close> filters only the names that come from the historic
  records: it returns those of them that are not excluded together with every custom
  teacher, whatever the custom teacher is called.
\<close>

theorem excluded_teachers_filtered:
  "(generateIntelligentSchedule stamp csvData customTeachers options = Inr classes
      \<longrightarrow> (\<forall>c\<in>set classes. \<not> excludedTeacher (fullName c)))
   \<and> (getBestTeacherForClass csvData classFormat location day time = Some teacher
      \<longrightarrow> \<not> excludedTeacher teacher)
   \<and> set (getUniqueTeachers csvData customTeachers)
       = {t \<in> cd_teacherName ` set csvData. \<not> excludedTeacher t}
         \<union> (\<lambda>t. ct_firstName t @ '' '' @ ct_lastName t) ` set customTeachers"
proof (intro conjI impI)
  assume "generateIntelligentSchedule stamp csvData customTeachers options = Inr classes"
  then obtain s where "runPhases stamp csvData options = Inr s" "classes = optimizedClasses s"
    by (auto simp: generateIntelligentSchedule_def bindE_Inr)
  with run_no_excluded show "\<forall>c\<in>set classes. \<not> excludedTeacher (fullName c)" by blast
next
  assume "getBestTeacherForClass csvData classFormat location day time = Some teacher"
  from getBestTeacherForClass_pooled[OF this] show "\<not> excludedTeacher teacher"
    by (simp add: pooled_def)
next
  show "set (getUniqueTeachers csvData customTeachers)
       = {t \<in> cd_teacherName ` set csvData. \<not> excludedTeacher t}
         \<union> (\<lambda>t. ct_firstName t @ '' '' @ ct_lastName t) ` set customTeachers"
    by (rule uniqueTeachers_set)
qed

theorem excluded_teachers_filtered_witness:
  "generateIntelligentSchedule tallyStamp rivalRecords [] \<lparr>opt_targetDay = Some ''Thursday''\<rparr>
     = Inr thursdaySchedule
   \<and> map fullName thursdaySchedule
       = [''Reshma Sharma'', ''Reshma Sharma'', ''Reshma Sharma'', ''Reshma Sharma'']
   \<and> \<not> excludedTeacher (fullName (thursdaySchedule ! 0))
   \<and> getBestTeacherForClass rivalRecords ''Studio FIT'' ''Kenkere House'' ''Thursday'' ''07:30''
       = Some ''Reshma Sharma''
   \<and> \<not> excludedTeacher ''Reshma Sharma''
   \<and> excludedTeacher ''Saniya Jaiswal''"
proof -
  have b: "getBestTeacherForClass rivalRecords ''Studio FIT'' ''Kenkere House'' ''Thursday'' ''07:30''
       = Some ''Reshma Sharma''" by code_simp
  have n: "map fullName thursdaySchedule
       = [''Reshma Sharma'', ''Reshma Sharma'', ''Reshma Sharma'', ''Reshma Sharma'']" by code_simp
  have e: "excludedTeacher ''Saniya Jaiswal''" by code_simp
  from excluded_teachers_filtered[of tallyStamp rivalRecords "[]"
      "\<lparr>opt_targetDay = Some ''Thursday''\<rparr>" thursdaySchedule "''Studio FIT''" "''Kenkere House''"
      "''Thursday''" "''07:30''" "''Reshma Sharma''"] thursday_run b n e
  show ?thesis by (simp add: thursdaySchedule_def)
qed

text \<open>A custom teacher called Saniya is returned by \<open>getUniqueTeachers\<close>.\<close>

theorem custom_teacher_counterexample:
  "getUniqueTeachers rivalRecords [\<lparr>ct_firstName = ''Saniya'', ct_lastName = ''Khan''\<rparr>]
     = [''Reshma Sharma'', ''Saniya Khan'']
   \<and> excludedTeacher ''Saniya Khan''"
  by code_simp

subsection \<open>Capacity of a cell\<close>

lemma tallyStamp_fresh: "freshStamps tallyStamp"
proof -
  let ?f = "\<lambda>s. length (takeWhile (\<lambda>c. c \<noteq> CHR ''#'') (rev s))"
  have "?f (p @ tallyStamp i) = i" for p i
  proof -
    have "takeWhile (\<lambda>c. c \<noteq> CHR ''#'') (replicate i (CHR ''i'') @ CHR ''#'' # rev p)
            = replicate i (CHR ''i'') @ takeWhile (\<lambda>c. c \<noteq> CHR ''#'') (CHR ''#'' # rev p)"
      by (rule takeWhile_append2) simp
    then show ?thesis by (simp add: tallyStamp_def)
  qed
  then have "i = j" if "p @ tallyStamp i = q @ tallyStamp j" for p q i j
    using that by metis
  then show ?thesis unfolding freshStamps_def by blast
qed

lemma length_filter_update:
  "i < length xs \<Longrightarrow>
     length (filter P (xs[i := x])) + (if P (xs ! i) then 1 else 0)
       = length (filter P xs) + (if P x then 1 else 0)"
proof (induction xs arbitrary: i)
  case Nil
  then show ?case by simp
next
  case (Cons a xs)
  then show ?case by (cases i) auto
qed

lemma distinct_iff_counts: "distinct ys \<longleftrightarrow> (\<forall>y. length (filter (\<lambda>z. z = y) ys) \<le> 1)"
proof (induction ys)
  case Nil
  then show ?case by simp
next
  case (Cons a ys)
  show ?case
  proof
    assume d: "distinct (a # ys)"
    then have "filter (\<lambda>z. z = a) ys = []" by (auto simp: filter_empty_conv)
    with d Cons show "\<forall>y. length (filter (\<lambda>z. z = y) (a # ys)) \<le> 1" by auto
  next
    assume c: "\<forall>y. length (filter (\<lambda>z. z = y) (a # ys)) \<le> 1"
    then have "length (filter (\<lambda>z. z = a) (a # ys)) \<le> 1" by blast
    then have "filter (\<lambda>z. z = a) ys = []" by simp
    then have "a \<notin> set ys" by (auto simp: filter_empty_conv)
    moreover have "\<forall>y. length (filter (\<lambda>z. z = y) ys) \<le> 1"
    proof
      fix y
      from c have "length (filter (\<lambda>z. z = y) (a # ys)) \<le> 1" by blast
      then show "length (filter (\<lambda>z. z = y) ys) \<le> 1" by (simp split: if_splits)
    qed
    ultimately show "distinct (a # ys)" using Cons by simp
  qed
qed

lemma format_counts:
  "length (filter (\<lambda>z. z = f) (map sc_classFormat (filter C xs)))
     = length (filter (\<lambda>c. C c \<and> sc_classFormat c = f) xs)"
  by (induction xs) auto

lemma run_cells:
  assumes fresh: "freshStamps stamp" and run: "runPhases stamp csvData options = Inr \<sigma>'"
  shows "length (filter (inCell l d t) (optimizedClasses \<sigma>')) \<le> maxParallel l
       \<and> length (filter (\<lambda>c. inCell l d t c \<and> sc_classFormat c = f) (optimizedClasses \<sigma>')) \<le> 1"
proof -
  let ?cells = "\<lambda>xs. \<forall>l d t. length (filter (inCell l d t) xs) \<le> maxParallel l
       \<and> (\<forall>f. length (filter (\<lambda>c. inCell l d t c \<and> sc_classFormat c = f) xs) \<le> 1)"
  let ?ids = "\<lambda>s. distinct (map sc_id (optimizedClasses s))
       \<and> (\<forall>c\<in>set (optimizedClasses s). \<exists>n<issued s. \<exists>p. sc_id c = p @ stamp n)"
  let ?P = "\<lambda>s. ?cells (optimizedClasses s) \<and> ?ids s"
  from run obtain s3 s4 where c: "creationPhases stamp csvData options = Inr s3"
    and p4: "phase4 (daysOf options) s3 = Inr s4" and p5: "phase5 (daysOf options) s4 = Inr \<sigma>'"
    by (auto simp: runPhases_def bindE_Inr)
  have "?P s3"
  proof (rule creation_inv[OF c, where P = ?P])
    show "?P (initialState (allTeachersOf csvData) (daysOf options))"
      by (simp add: initialState_def)
  next
    fix \<sigma> slot teacher \<sigma>1
    assume P: "?P \<sigma>" and op: "cellOpen (optimizedClasses \<sigma>) slot"
      and asg: "assignClass stamp slot teacher \<sigma> = Inr \<sigma>1"
    let ?new = "createdClass stamp (issued \<sigma>) slot teacher"
    have cls: "optimizedClasses \<sigma>1 = optimizedClasses \<sigma> @ [?new]"
      and iss: "issued \<sigma>1 = Suc (issued \<sigma>)"
      using assignClass_Inr(1,2)[OF asg] by simp_all
    have at: "inCell l d t ?new \<longleftrightarrow> l = cs_location slot \<and> d = cs_day slot \<and> t = cs_time slot" for l d t
      by (auto simp: inCell_def createdClass_fields)
    from op have room: "length (filter (inCell (cs_location slot) (cs_day slot) (cs_time slot))
                          (optimizedClasses \<sigma>)) < maxParallel (cs_location slot)"
      and unused: "cs_classFormat slot \<notin> sc_classFormat `
           set (filter (inCell (cs_location slot) (cs_day slot) (cs_time slot)) (optimizedClasses \<sigma>))"
      by (simp_all add: cellOpen_def)
    from unused have none: "filter (\<lambda>c. inCell (cs_location slot) (cs_day slot) (cs_time slot) c
                      \<and> sc_classFormat c = cs_classFormat slot) (optimizedClasses \<sigma>) = []"
      by (force simp: filter_empty_conv)
    have "?cells (optimizedClasses \<sigma>1)"
    proof (intro allI conjI)
      fix l d t
      show "length (filter (inCell l d t) (optimizedClasses \<sigma>1)) \<le> maxParallel l"
        using P room by (cases "inCell l d t ?new") (auto simp: cls at)
      fix f
      show "length (filter (\<lambda>c. inCell l d t c \<and> sc_classFormat c = f) (optimizedClasses \<sigma>1)) \<le> 1"
        using P none
        by (cases "inCell l d t ?new \<and> sc_classFormat ?new = f")
           (auto simp: cls at createdClass_fields)
    qed
    moreover have "?ids \<sigma>1"
    proof (intro conjI ballI)
      have id: "sc_id ?new = (''ai-optimized-'' @ cs_location slot @ ''-'' @ cs_day slot @ ''-''
                @ cs_time slot @ ''-'') @ stamp (issued \<sigma>)"
        by (simp add: createdClass_def)
      have "sc_id ?new \<noteq> sc_id c" if "c \<in> set (optimizedClasses \<sigma>)" for c
      proof -
        from P that obtain n p where "n < issued \<sigma>" "sc_id c = p @ stamp n" by blast
        with fresh id show ?thesis unfolding freshStamps_def by (metis nat_neq_iff)
      qed
      with P show "distinct (map sc_id (optimizedClasses \<sigma>1))" by (auto simp: cls)
      fix c assume "c \<in> set (optimizedClasses \<sigma>1)"
      then consider "c = ?new" | "c \<in> set (optimizedClasses \<sigma>)" by (auto simp: cls)
      then show "\<exists>n<issued \<sigma>1. \<exists>p. sc_id c = p @ stamp n"
      proof cases
        case 1
        with id iss show ?thesis by (metis lessI)
      next
        case 2
        with P obtain n p where "n < issued \<sigma>" "sc_id c = p @ stamp n" by blast
        with iss show ?thesis by (metis less_Suc_eq)
      qed
    qed
    ultimately show "?P \<sigma>1" by simp
  qed
  have "?P s4"
  proof (rule phase4_inv[OF p4, where P = ?P and K = False and G = "\<lambda>n. True"])
    show "?P s3" by fact
  next
    fix \<sigma> teacher target day i \<sigma>1
    assume P: "?P \<sigma>" and re: "reassignClass teacher target day i \<sigma> = Inr \<sigma>1"
    from reassignClass_cases[OF re] show "?P \<sigma>1"
    proof (elim disjE exE conjE)
      assume "\<sigma>1 = \<sigma>"
      with P show ?thesis by simp
    next
      fix k fromWeek toWeek
      let ?xs = "optimizedClasses \<sigma>"
      let ?x = "(?xs ! k)\<lparr>sc_teacherFirstName := fst (splitName target),
              sc_teacherLastName := snd (splitName target)\<rparr>"
      assume k: "findIndex (\<lambda>c. sc_id c = sc_id (?xs ! i)) ?xs = Some k"
        and upd: "optimizedClasses \<sigma>1 = ?xs[k := ?x]" and iss: "issued \<sigma>1 = issued \<sigma>"
      from findIndex_Some[OF k] have kl: "k < length ?xs" by simp
      have same: "length (filter Q (?xs[k := ?x])) = length (filter Q ?xs)"
        if "Q ?x = Q (?xs ! k)" for Q
        using length_filter_update[OF kl, of Q ?x] that by simp
      have "?cells (optimizedClasses \<sigma>1)"
        using P by (simp add: upd same inCell_def)
      moreover have "map sc_id (?xs[k := ?x]) = map sc_id ?xs"
        using kl by (simp add: map_update list_update_same_conv)
      then have "distinct (map sc_id (optimizedClasses \<sigma>1))" using P by (simp add: upd)
      moreover have "\<exists>n<issued \<sigma>1. \<exists>p. sc_id c = p @ stamp n" if "c \<in> set (optimizedClasses \<sigma>1)" for c
      proof -
        from that have "c = ?x \<or> c \<in> set ?xs"
          unfolding upd using set_update_subset_insert[of ?xs k ?x] by blast
        moreover have "?xs ! k \<in> set ?xs" using kl by simp
        ultimately obtain c' where "c' \<in> set ?xs" "sc_id c = sc_id c'" by auto
        with P iss show ?thesis by metis
      qed
      ultimately show ?thesis by simp
    qed
  qed simp_all
  have "?P \<sigma>'"
  proof (rule phase5_inv[OF p5, where P = ?P])
    show "?P s4" by fact
  next
    fix \<sigma> :: SchedState and location day i newTime b \<sigma>1
    let ?xs = "optimizedClasses \<sigma>"
    assume P: "?P \<sigma>" and il: "i < length ?xs"
      and loc: "sc_location (?xs ! i) = location" and dy: "sc_day (?xs ! i) = day"
      and mv: "moveClass location day i newTime \<sigma> = Inr (b, \<sigma>1)"
    show "?P \<sigma>1"
    proof (cases b)
      case False
      with moveClass_step(2)[OF mv] P show ?thesis by simp
    next
      case True
      let ?x = "(?xs ! i)\<lparr>sc_time := newTime\<rparr>"
      from moveClass_step(3)[OF mv True] P il
      have upd: "optimizedClasses \<sigma>1 = ?xs[i := ?x]" by auto
      from moveClass_step(4)[OF mv True]
      have room: "length (filter (inCell location day newTime) ?xs) < maxParallel location"
        and none: "filter (\<lambda>c. inCell location day newTime c
                      \<and> sc_classFormat c = sc_classFormat (?xs ! i)) ?xs = []"
        by (auto simp: filter_empty_conv)
      from moveClass_step(1)[OF mv] have iss: "issued \<sigma>1 = issued \<sigma>"
        by (simp add: sameTrackers_def)
      have at: "inCell l d t ?x \<longleftrightarrow> l = location \<and> d = day \<and> t = newTime" for l d t
        using loc dy by (auto simp: inCell_def)
      have "?cells (optimizedClasses \<sigma>1)"
      proof (intro allI conjI)
        fix l d t
        from P have "length (filter (inCell l d t) ?xs) \<le> maxParallel l" by blast
        with length_filter_update[OF il, of "inCell l d t" ?x] room
        show "length (filter (inCell l d t) (optimizedClasses \<sigma>1)) \<le> maxParallel l"
          unfolding upd by (cases "inCell l d t ?x") (auto simp: at split: if_splits)
        fix f
        let ?Q = "\<lambda>c. inCell l d t c \<and> sc_classFormat c = f"
        from P have "length (filter ?Q ?xs) \<le> 1" by blast
        with length_filter_update[OF il, of ?Q ?x] none
        show "length (filter ?Q (optimizedClasses \<sigma>1)) \<le> 1"
          unfolding upd by (cases "?Q ?x") (auto simp: at split: if_splits)
      qed
      moreover have "map sc_id (?xs[i := ?x]) = map sc_id ?xs"
        using il by (simp add: map_update list_update_same_conv)
      then have "distinct (map sc_id (optimizedClasses \<sigma>1))" using P by (simp add: upd)
      moreover have "\<exists>n<issued \<sigma>1. \<exists>p. sc_id c = p @ stamp n" if "c \<in> set (optimizedClasses \<sigma>1)" for c
      proof -
        from that have "c = ?x \<or> c \<in> set ?xs"
          unfolding upd using set_update_subset_insert[of ?xs i ?x] by blast
        moreover have "?xs ! i \<in> set ?xs" using il by simp
        ultimately obtain c' where "c' \<in> set ?xs" "sc_id c = sc_id c'" by auto
        with P iss show ?thesis by metis
      qed
      ultimately show ?thesis by simp
    qed
  qed
  then show ?thesis by blast
qed


text \<open>
  Claim C2. Provided no identifier is issued twice, every cell (location, day, time) of a
  schedule the generator returns holds at most as many classes as the location runs in
  parallel (3 at Supreme HQ, Bandra, 2 elsewhere), and no two classes of a cell have the
  same format.
\<close>

theorem cells_within_capacity:
  assumes "freshStamps stamp"
    and "generateIntelligentSchedule stamp csvData customTeachers options = Inr classes"
  shows "length (filter (inCell location day time) classes)
           \<le> (if location = ''Supreme HQ, Bandra'' then 3 else 2)
       \<and> distinct (map sc_classFormat (filter (inCell location day time) classes))"
proof -
  from assms(2) obtain s where run: "runPhases stamp csvData options = Inr s"
    and cls: "classes = optimizedClasses s"
    by (auto simp: generateIntelligentSchedule_def bindE_Inr)
  from run_cells[OF assms(1) run, of location day time]
  have "length (filter (inCell location day time) classes) \<le> maxParallel location"
    and "\<forall>f. length (filter (\<lambda>z. z = f)
              (map sc_classFormat (filter (inCell location day time) classes))) \<le> 1"
    by (simp_all add: cls format_counts)
  then show ?thesis by (simp add: maxParallel_def distinct_iff_counts)
qed

theorem cells_within_capacity_witness:
  "freshStamps tallyStamp
   \<and> generateIntelligentSchedule tallyStamp rivalRecords [] \<lparr>opt_targetDay = Some ''Thursday''\<rparr>
       = Inr thursdaySchedule
   \<and> map sc_classFormat (filter (inCell ''Kenkere House'' ''Thursday'' ''07:30'') thursdaySchedule)
       = [''Studio FIT'']
   \<and> length (filter (inCell ''Kenkere House'' ''Thursday'' ''07:30'') thursdaySchedule) \<le> 2
   \<and> distinct (map sc_classFormat
         (filter (inCell ''Kenkere House'' ''Thursday'' ''07:30'') thursdaySchedule))"
proof -
  have c: "map sc_classFormat (filter (inCell ''Kenkere House'' ''Thursday'' ''07:30'') thursdaySchedule)
       = [''Studio FIT'']" by code_simp
  from cells_within_capacity[OF tallyStamp_fresh thursday_run, of "''Kenkere House''" "''Thursday''" "''07:30''"]
    tallyStamp_fresh thursday_run c
  show ?thesis by simp
qed

subsection \<open>Weekly hours\<close>

lemma scheduledHours_append:
  "scheduledHours (xs @ ys) n = scheduledHours xs n + scheduledHours ys n"
  by (simp add: scheduledHours_def)

lemma orZero_simps: "orZero (Some h) = h" "orZero None = 0"
  by (simp_all add: orZero_def)

lemma scheduledHours_single:
  "scheduledHours [c] n = (if fullName c = n then sc_duration c else 0)"
  by (simp add: scheduledHours_def)

lemma scheduledHours_update:
  "i < length xs \<Longrightarrow>
     scheduledHours (xs[i := x]) n
       = scheduledHours xs n - (if fullName (xs ! i) = n then sc_duration (xs ! i) else 0)
           + (if fullName x = n then sc_duration x else 0)"
proof (induction xs arbitrary: i)
  case Nil
  then show ?case by simp
next
  case (Cons a xs)
  show ?case
  proof (cases i)
    case 0
    then show ?thesis by (simp add: scheduledHours_def)
  next
    case (Suc j)
    with Cons.prems have "j < length xs" by simp
    from Cons.IH[OF this] Suc show ?thesis by (simp add: scheduledHours_def)
  qed
qed

lemma scheduledHours_retimed:
  "list_all2 sameButTime xs ys \<Longrightarrow> scheduledHours ys n = scheduledHours xs n"
proof (induction rule: list_all2_induct)
  case Nil
  then show ?case by simp
next
  case (Cons x xs y ys)
  from sameButTime_fields(5,6)[OF Cons.hyps(1)] Cons.IH
  show ?case by (simp add: scheduledHours_def)
qed

lemma getClassDuration_cases:
  "getClassDuration f = 3 / 4 \<or> getClassDuration f = 1 / 2 \<or> getClassDuration f = 1"
  by (simp add: getClassDuration_def Let_def)

lemma round1_nonneg: "0 \<le> x \<Longrightarrow> round1 x = of_int \<lfloor>x * 10 + 1 / 2\<rfloor> / 10"
  by (simp add: round1_def tenths_def)

lemma round1_steps:
  "round1 (of_nat a / 10 + 3 / 4) = of_nat (a + 8) / 10"
  "round1 (of_nat a / 10 + 1 / 2) = of_nat (a + 5) / 10"
  "round1 (of_nat a / 10 + 1) = of_nat (a + 10) / 10"
proof -
  have "\<lfloor>(of_nat a / 10 + 3 / 4) * 10 + 1 / 2 :: rat\<rfloor> = int a + 8"
    by (rule floor_unique) (simp_all add: field_simps)
  then show "round1 (of_nat a / 10 + 3 / 4) = of_nat (a + 8) / 10"
    by (simp add: round1_nonneg)
  have "\<lfloor>(of_nat a / 10 + 1 / 2) * 10 + 1 / 2 :: rat\<rfloor> = int a + 5"
    by (rule floor_unique) (simp_all add: field_simps)
  then show "round1 (of_nat a / 10 + 1 / 2) = of_nat (a + 5) / 10"
    by (simp add: round1_nonneg)
  have "\<lfloor>(of_nat a / 10 + 1) * 10 + 1 / 2 :: rat\<rfloor> = int a + 10"
    by (rule floor_unique) (simp_all add: field_simps)
  then show "round1 (of_nat a / 10 + 1) = of_nat (a + 10) / 10"
    by (simp add: round1_nonneg)
qed

lemma round1_tenth:
  assumes "d = 3 / 4 \<or> d = 1 / 2 \<or> d = 1"
  shows "of_nat a / 10 + d \<le> round1 (of_nat a / 10 + d)
       \<and> (\<exists>b::nat. round1 (of_nat a / 10 + d) = of_nat b / 10)"
  using assms
proof (elim disjE)
  assume d: "d = 3 / 4"
  show ?thesis unfolding d round1_steps by (rule conjI) (simp, blast)
next
  assume d: "d = 1 / 2"
  show ?thesis unfolding d round1_steps by (rule conjI) (simp, blast)
next
  assume d: "d = 1"
  show ?thesis unfolding d round1_steps by (rule conjI) (simp, blast)
qed

lemma round1_cap:
  assumes "0 \<le> x" "x \<le> of_nat m"
  shows "round1 x \<le> of_nat m"
proof -
  have "x * 10 + 1 / 2 < of_int (int m * 10 + 1)" using assms(2) by simp
  then have "\<lfloor>x * 10 + 1 / 2\<rfloor> < int m * 10 + 1" by (simp only: floor_less_iff)
  then have "\<lfloor>x * 10 + 1 / 2\<rfloor> \<le> int m * 10" by simp
  then have "(of_int \<lfloor>x * 10 + 1 / 2\<rfloor> :: rat) \<le> of_int (int m * 10)" by (simp only: of_int_le_iff)
  then show ?thesis unfolding round1_nonneg[OF assms(1)] by simp
qed

lemma canAssign_cap:
  assumes "canAssignTeacher \<sigma> teacher day time d f = Inr True"
  shows "orZero (map_of (teacherHoursTracker \<sigma>) teacher) + d \<le> of_nat (maxWeeklyHours teacher)"
  using assms
  by (auto simp: canAssignTeacher_def Let_def split: if_splits option.splits)

lemma default_teachers_spaced: "\<forall>d\<in>set getDefaultTopClasses. CHR '' '' \<in> set (dc_teacher d)"
  by code_simp

lemma pooled_scheduleName:
  assumes "\<forall>item\<in>set csvData. CHR '' '' \<in> set (cd_teacherName item)" "pooled csvData t"
  shows "scheduleName t = t"
proof -
  from assms default_teachers_spaced have "CHR '' '' \<in> set t" by (auto simp: pooled_def)
  then show ?thesis by (simp add: scheduleName_eq)
qed

lemma fullName_spaced: "CHR '' '' \<in> set (fullName c)"
  by (simp add: fullName_def)


lemma stampedIds_assign:
  assumes fresh: "freshStamps stamp" and ids: "stampedIds stamp \<sigma>"
    and asg: "assignClass stamp slot teacher \<sigma> = Inr \<sigma>1"
  shows "stampedIds stamp \<sigma>1"
proof -
  let ?new = "createdClass stamp (issued \<sigma>) slot teacher"
  have cls: "optimizedClasses \<sigma>1 = optimizedClasses \<sigma> @ [?new]"
    and iss: "issued \<sigma>1 = Suc (issued \<sigma>)"
    using assignClass_Inr(1,2)[OF asg] by simp_all
  have id: "sc_id ?new = (''ai-optimized-'' @ cs_location slot @ ''-'' @ cs_day slot @ ''-''
                @ cs_time slot @ ''-'') @ stamp (issued \<sigma>)"
    by (simp add: createdClass_def)
  have "sc_id ?new \<noteq> sc_id c" if "c \<in> set (optimizedClasses \<sigma>)" for c
  proof -
    from ids that obtain n p where "n < issued \<sigma>" "sc_id c = p @ stamp n"
      unfolding stampedIds_def by blast
    with fresh id show ?thesis unfolding freshStamps_def by (metis nat_neq_iff)
  qed
  with ids have "distinct (map sc_id (optimizedClasses \<sigma>1))"
    by (auto simp: cls stampedIds_def)
  moreover have "\<exists>n<issued \<sigma>1. \<exists>p. sc_id c = p @ stamp n" if "c \<in> set (optimizedClasses \<sigma>1)" for c
  proof -
    from that consider "c = ?new" | "c \<in> set (optimizedClasses \<sigma>)" by (auto simp: cls)
    then show ?thesis
    proof cases
      case 1
      with id iss show ?thesis by (metis lessI)
    next
      case 2
      with ids obtain n p where "n < issued \<sigma>" "sc_id c = p @ stamp n"
        unfolding stampedIds_def by blast
      with iss show ?thesis by (metis less_Suc_eq)
    qed
  qed
  ultimately show ?thesis by (simp add: stampedIds_def)
qed

lemma stampedIds_update:
  assumes ids: "stampedIds stamp \<sigma>" and k: "k < length (optimizedClasses \<sigma>)"
    and same: "sc_id x = sc_id (optimizedClasses \<sigma> ! k)"
    and upd: "optimizedClasses \<sigma>1 = (optimizedClasses \<sigma>)[k := x]" and iss: "issued \<sigma>1 = issued \<sigma>"
  shows "stampedIds stamp \<sigma>1"
proof -
  let ?xs = "optimizedClasses \<sigma>"
  have "map sc_id (?xs[k := x]) = map sc_id ?xs"
    using k same by (simp add: map_update list_update_same_conv)
  then have "distinct (map sc_id (optimizedClasses \<sigma>1))"
    using ids by (simp add: upd stampedIds_def)
  moreover have "\<exists>n<issued \<sigma>1. \<exists>p. sc_id c = p @ stamp n" if "c \<in> set (optimizedClasses \<sigma>1)" for c
  proof -
    from that have "c = x \<or> c \<in> set ?xs"
      unfolding upd using set_update_subset_insert[of ?xs k x] by blast
    moreover have "?xs ! k \<in> set ?xs" using k by simp
    ultimately obtain c' where "c' \<in> set ?xs" "sc_id c = sc_id c'" using same by auto
    with ids iss show ?thesis unfolding stampedIds_def by metis
  qed
  ultimately show ?thesis by (simp add: stampedIds_def)
qed

lemma run_hours:
  assumes fresh: "freshStamps stamp"
    and spaced: "\<forall>item\<in>set csvData. CHR '' '' \<in> set (cd_teacherName item)"
    and run: "runPhases stamp csvData options = Inr \<sigma>'"
  shows "scheduledHours (optimizedClasses \<sigma>') n \<le> of_nat (maxWeeklyHours n)"
proof -
  let ?hours = "\<lambda>s. \<forall>n. scheduledHours (optimizedClasses s) n
                        \<le> orZero (map_of (teacherHoursTracker s) n)"
  let ?caps = "\<lambda>s. \<forall>t h. map_of (teacherHoursTracker s) t = Some h \<longrightarrow> h \<le> of_nat (maxWeeklyHours t)"
  let ?tenths = "\<lambda>s. \<forall>t h. map_of (teacherHoursTracker s) t = Some h \<longrightarrow> (\<exists>a::nat. h = of_nat a / 10)"
  let ?durs = "\<lambda>s. \<forall>c\<in>set (optimizedClasses s). 0 \<le> sc_duration c"
  let ?B = "\<lambda>s. ?hours s \<and> ?caps s \<and> stampedIds stamp s \<and> ?durs s"
  let ?A = "\<lambda>s. ?B s \<and> ?tenths s"
  from run obtain s3 s4 where c: "creationPhases stamp csvData options = Inr s3"
    and p4: "phase4 (daysOf options) s3 = Inr s4" and p5: "phase5 (daysOf options) s4 = Inr \<sigma>'"
    by (auto simp: runPhases_def bindE_Inr)
  have "?A s3"
  proof (rule creation_inv[OF c, where P = ?A])
    show "?A (initialState (allTeachersOf csvData) (daysOf options))"
      by (auto simp: initialState_def scheduledHours_def stampedIds_def orZero_def
            map_of_map_restrict restrict_map_def split: option.splits if_splits)
  next
    fix \<sigma> :: SchedState and slot teacher \<sigma>1
    assume A: "?A \<sigma>" and pool: "pooled csvData teacher"
      and can: "canAssignTeacher \<sigma> teacher (cs_day slot) (cs_time slot)
                 (getClassDuration (cs_classFormat slot)) (cs_classFormat slot) = Inr True"
      and asg: "assignClass stamp slot teacher \<sigma> = Inr \<sigma>1"
    let ?T = "teacherHoursTracker \<sigma>"
    let ?d = "getClassDuration (cs_classFormat slot)"
    let ?w = "orZero (map_of ?T teacher)"
    let ?new = "createdClass stamp (issued \<sigma>) slot teacher"
    have cls: "optimizedClasses \<sigma>1 = optimizedClasses \<sigma> @ [?new]"
      and trk: "teacherHoursTracker \<sigma>1 = AList.update teacher (round1 (?w + ?d)) ?T"
      using assignClass_Inr(1,3)[OF asg] by simp_all
    have name: "fullName ?new = teacher"
      by (simp add: fullName_created pooled_scheduleName[OF spaced pool])
    have dur: "sc_duration ?new = ?d" by (simp add: createdClass_fields)
    from A obtain a :: nat where w: "?w = of_nat a / 10"
    proof (cases "map_of ?T teacher")
      case None
      then have "?w = of_nat 0 / 10" by (simp add: orZero_def)
      with that show ?thesis by blast
    next
      case (Some h)
      with A obtain a :: nat where "h = of_nat a / 10" by blast
      with Some that show ?thesis by (simp add: orZero_def)
    qed
    have up: "?w + ?d \<le> round1 (?w + ?d)" and ten: "\<exists>b::nat. round1 (?w + ?d) = of_nat b / 10"
      unfolding w using round1_tenth[OF getClassDuration_cases, of a "cs_classFormat slot"]
      by blast+
    have dpos: "0 \<le> ?d" using getClassDuration_cases[of "cs_classFormat slot"] by auto
    have "0 \<le> ?w + ?d" using w dpos by simp
    from round1_cap[OF this canAssign_cap[OF can]]
    have cap: "round1 (?w + ?d) \<le> of_nat (maxWeeklyHours teacher)" .
    have "?hours \<sigma>1"
    proof
      fix n
      from A have "scheduledHours (optimizedClasses \<sigma>) n \<le> orZero (map_of ?T n)" by blast
      with up show "scheduledHours (optimizedClasses \<sigma>1) n
                      \<le> orZero (map_of (teacherHoursTracker \<sigma>1) n)"
        by (auto simp: cls trk scheduledHours_append scheduledHours_single update_conv' name dur
              orZero_simps)
    qed
    moreover have "?caps \<sigma>1" using A cap by (simp add: trk update_conv')
    moreover have "?tenths \<sigma>1" using A ten by (simp add: trk update_conv')
    moreover have "stampedIds stamp \<sigma>1" using stampedIds_assign[OF fresh _ asg] A by blast
    moreover have "?durs \<sigma>1" using A dpos by (simp add: cls dur)
    ultimately show "?A \<sigma>1" by blast
  qed
  then have "?B s3" by blast
  have "?B s4"
  proof (rule phase4_inv[OF p4, where P = ?B and K = True and G = "\<lambda>n. CHR '' '' \<in> set n"])
    show "?B s3" by fact
  next
    fix \<sigma> :: SchedState and c
    show "CHR '' '' \<in> set (fullName c)" by (rule fullName_spaced)
  next
    fix \<sigma> :: SchedState
    assume "?B \<sigma>"
    then show "distinct (map sc_id (optimizedClasses \<sigma>))" by (simp add: stampedIds_def)
  next
    fix \<sigma> :: SchedState and teacher target day i \<sigma>1
    let ?xs = "optimizedClasses \<sigma>"
    let ?T = "teacherHoursTracker \<sigma>"
    let ?d = "sc_duration (?xs ! i)"
    assume B: "?B \<sigma>" and G: "CHR '' '' \<in> set target" and il: "i < length ?xs"
      and own: "True \<longrightarrow> fullName (?xs ! i) = teacher"
      and can: "canAssignTeacher \<sigma> target day (sc_time (?xs ! i)) ?d (sc_classFormat (?xs ! i)) = Inr True"
      and re: "reassignClass teacher target day i \<sigma> = Inr \<sigma>1"
    from B have ids: "stampedIds stamp \<sigma>" by blast
    from reassignClass_cases[OF re] show "?B \<sigma>1"
    proof (elim disjE exE conjE)
      assume "\<sigma>1 = \<sigma>"
      with B show ?thesis by simp
    next
      fix k fromWeek toWeek
      let ?x = "(?xs ! k)\<lparr>sc_teacherFirstName := fst (splitName target),
              sc_teacherLastName := snd (splitName target)\<rparr>"
      assume k: "findIndex (\<lambda>c. sc_id c = sc_id (?xs ! i)) ?xs = Some k"
        and upd: "optimizedClasses \<sigma>1 = ?xs[k := ?x]"
        and fw: "map_of ?T teacher = Some fromWeek"
        and tw: "map_of (AList.update teacher (fromWeek - ?d) ?T) target = Some toWeek"
        and trk: "teacherHoursTracker \<sigma>1
                    = AList.update target (toWeek + ?d) (AList.update teacher (fromWeek - ?d) ?T)"
        and iss: "issued \<sigma>1 = issued \<sigma>"
      from ids have "distinct (map sc_id ?xs)" by (simp add: stampedIds_def)
      from findIndex_distinct[OF this il k] have ki: "k = i" .
      have "fullName ?x = scheduleName target" by (simp add: fullName_def scheduleName_def)
      with G have nx: "fullName ?x = target" by (simp add: scheduleName_eq)
      have dx: "sc_duration ?x = ?d" by (simp add: ki)
      have old: "fullName (?xs ! i) = teacher" using own by simp
      from B il have dpos: "0 \<le> ?d" by simp
      have S: "scheduledHours (optimizedClasses \<sigma>1) n
                 = scheduledHours ?xs n - (if teacher = n then ?d else 0) + (if target = n then ?d else 0)"
        for n
        unfolding upd ki using scheduledHours_update[OF il, of ?x n] nx dx old ki by simp
      from canAssign_cap[OF can] have tcap: "orZero (map_of ?T target) + ?d \<le> of_nat (maxWeeklyHours target)" .
      have "?hours \<sigma>1 \<and> ?caps \<sigma>1"
      proof (cases "target = teacher")
        case True
        with tw have "toWeek = fromWeek - ?d" by (simp add: update_conv')
        with True fw have T1: "map_of (teacherHoursTracker \<sigma>1) = map_of ?T"
          by (auto simp: trk update_conv')
        from True S have "scheduledHours (optimizedClasses \<sigma>1) n = scheduledHours ?xs n" for n
          by simp
        with T1 B show ?thesis by simp
      next
        case False
        with tw have tw': "map_of ?T target = Some toWeek" by (simp add: update_conv')
        have T1: "map_of (teacherHoursTracker \<sigma>1)
                    = (map_of ?T)(teacher \<mapsto> fromWeek - ?d, target \<mapsto> toWeek + ?d)"
          by (simp add: trk update_conv')
        from B fw tw' have h1: "scheduledHours ?xs teacher \<le> fromWeek"
          and h2: "scheduledHours ?xs target \<le> toWeek"
          and c1: "fromWeek \<le> of_nat (maxWeeklyHours teacher)"
          by (auto simp: orZero_def dest: spec[where x = teacher] spec[where x = target])
        from tcap tw' have c2: "toWeek + ?d \<le> of_nat (maxWeeklyHours target)" by (simp add: orZero_def)
        have "?hours \<sigma>1"
        proof
          fix n
          from B have "scheduledHours ?xs n \<le> orZero (map_of ?T n)" by blast
          with h1 h2 False show "scheduledHours (optimizedClasses \<sigma>1) n
                  \<le> orZero (map_of (teacherHoursTracker \<sigma>1) n)"
            by (auto simp: S T1 orZero_def)
        qed
        moreover have "?caps \<sigma>1" using B c1 c2 dpos by (auto simp: T1)
        ultimately show ?thesis by simp
      qed
      moreover have "stampedIds stamp \<sigma>1"
        by (rule stampedIds_update[OF ids _ _ upd iss]) (use il ki in simp_all)
      moreover have "?durs \<sigma>1"
      proof
        fix c assume "c \<in> set (optimizedClasses \<sigma>1)"
        then have "c = ?x \<or> c \<in> set ?xs"
          unfolding upd using set_update_subset_insert[of ?xs k ?x] by blast
        with B dx dpos show "0 \<le> sc_duration c" by auto
      qed
      ultimately show ?thesis by blast
    qed
  qed
  from phase5_frame[OF p5] have "list_all2 sameButTime (optimizedClasses s4) (optimizedClasses \<sigma>')"
    and "teacherHoursTracker \<sigma>' = teacherHoursTracker s4"
    by (simp_all add: sameTrackers_def)
  with scheduledHours_retimed[of "optimizedClasses s4" "optimizedClasses \<sigma>'" n] \<open>?B s4\<close>
  have le: "scheduledHours (optimizedClasses \<sigma>') n \<le> orZero (map_of (teacherHoursTracker s4) n)"
    by simp
  show ?thesis
  proof (cases "map_of (teacherHoursTracker s4) n")
    case None
    with le show ?thesis by (simp add: orZero_def)
  next
    case (Some h)
    with \<open>?B s4\<close> have "h \<le> of_nat (maxWeeklyHours n)" by blast
    with le Some show ?thesis by (simp add: orZero_def)
  qed
qed


text \<open>
  Claim C1, as amended. Provided no identifier is issued twice and every teacher name of
  the historic records contains a space, the classes of a returned schedule that carry one
  teacher name last at most 15 hours in total, and at most 10 hours when the name contains
  \<open>Kabir\<close> or \<open>Simonelle\<close>.
\<close>

theorem weekly_hours_within_cap:
  assumes "freshStamps stamp"
    and "\<forall>item\<in>set csvData. CHR '' '' \<in> set (cd_teacherName item)"
    and "generateIntelligentSchedule stamp csvData customTeachers options = Inr classes"
  shows "scheduledHours classes teacher \<le> (if isNewTrainer teacher then 10 else 15)"
proof -
  from assms(3) obtain s where run: "runPhases stamp csvData options = Inr s"
    and cls: "classes = optimizedClasses s"
    by (auto simp: generateIntelligentSchedule_def bindE_Inr)
  from run_hours[OF assms(1,2) run, of teacher] show ?thesis
    by (cases "isNewTrainer teacher") (simp_all add: cls maxWeeklyHours_def)
qed

theorem weekly_hours_within_cap_witness:
  "freshStamps tallyStamp
   \<and> generateIntelligentSchedule tallyStamp rivalRecords [] \<lparr>opt_targetDay = Some ''Thursday''\<rparr>
       = Inr thursdaySchedule
   \<and> scheduledHours thursdaySchedule ''Reshma Sharma'' = 4
   \<and> \<not> isNewTrainer ''Reshma Sharma''
   \<and> scheduledHours thursdaySchedule ''Reshma Sharma'' \<le> 15"
proof -
  have sp: "\<forall>item\<in>set rivalRecords. CHR '' '' \<in> set (cd_teacherName item)" by code_simp
  have h: "scheduledHours thursdaySchedule ''Reshma Sharma'' = 4" by code_simp
  have n: "\<not> isNewTrainer ''Reshma Sharma''" by code_simp
  from weekly_hours_within_cap[OF tallyStamp_fresh sp thursday_run, of "''Reshma Sharma''"]
    tallyStamp_fresh thursday_run h n
  show ?thesis by simp
qed

subsection \<open>The best performing classes\<close>

lemma upsert_map_fst:
  "map fst (upsert k i f al) = (if k \<in> fst ` set al then map fst al else map fst al @ [k])"
  by (induction al) (auto split: if_splits)

lemma uniq_snoc: "uniq (xs @ [x]) = (if x \<in> set xs then uniq xs else uniq xs @ [x])"
  by (simp add: uniq_def uniq_set[unfolded uniq_def])

lemma roundHalfEven_int: "roundHalfEven (of_int n) = n"
  by (simp add: roundHalfEven_def)

lemma float64_quarters:
  assumes q: "of_int \<lfloor>x * 4\<rfloor> = x * 4" and e: "binaryExponent x \<le> 50"
  shows "float64 x = x"
proof (cases "x = 0")
  case True
  then show ?thesis by (simp add: float64_def)
next
  case False
  define k where "k = nat (50 - max (binaryExponent x) (- 1022))"
  from e have k: "max (binaryExponent x) (- 1022) - 52 = - int (Suc (Suc k))"
    by (simp add: k_def)
  have ulp: "2 powi (max (binaryExponent x) (- 1022) - 52) = 1 / (4 * 2 ^ k :: rat)"
  proof -
    have "2 powi (- int (Suc (Suc k))) = inverse ((2::rat) ^ Suc (Suc k))"
      by (simp only: power_int_minus power_int_of_nat)
    also have "\<dots> = 1 / (4 * 2 ^ k)" by (simp add: field_simps)
    finally show ?thesis by (simp only: k)
  qed
  have "x / (1 / (4 * 2 ^ k)) = (x * 4) * 2 ^ k" by simp
  also have "\<dots> = of_int (\<lfloor>x * 4\<rfloor> * 2 ^ k)" by (simp add: q)
  finally have n: "x / (1 / (4 * 2 ^ k)) = of_int (\<lfloor>x * 4\<rfloor> * 2 ^ k)" .
  have "float64 x = of_int (\<lfloor>x * 4\<rfloor> * 2 ^ k) * (1 / (4 * 2 ^ k))"
    using False by (simp only: float64_def Let_def ulp n roundHalfEven_int if_False)
  also have "\<dots> = x" using q by simp
  finally show ?thesis .
qed

lemma float64_code [code]:
  "float64 x =
     (if x = 0 then 0
      else if of_int \<lfloor>x * 4\<rfloor> = x * 4 \<and> binaryExponent x \<le> 50 then x
      else let ulp = 2 powi (max (binaryExponent x) (- 1022) - 52)
           in of_int (roundHalfEven (x / ulp)) * ulp)"
proof (cases "of_int \<lfloor>x * 4\<rfloor> = x * 4 \<and> binaryExponent x \<le> 50")
  case True
  then have "float64 x = x" by (simp only: float64_quarters)
  with True show ?thesis by (simp only: if_True) simp
next
  case False
  then show ?thesis by (simp only: float64_def if_False)
qed

lemma classGroups_snoc:
  "classGroups b (xs @ [x]) =
     upsert (groupKey b x)
       \<lparr>cg_classFormat = cd_cleanedClass x, cg_location = cd_location x,
        cg_day = cd_dayOfWeek x, cg_time = take 5 (cd_classTime x),
        cg_teacher = (if b then cd_teacherName x else []),
        cg_totalParticipants = 0, cg_totalRevenue = 0, cg_count = 0\<rparr>
       (addToGroup x) (classGroups b xs)"
  by (simp add: classGroups_def)

lemma classGroups_keys: "map fst (classGroups b xs) = uniq (map (groupKey b) xs)"
proof (induction xs rule: rev_induct)
  case Nil
  then show ?case by (simp add: classGroups_def uniq_def)
next
  case (snoc x xs)
  have "fst ` set (classGroups b xs) = groupKey b ` set xs"
    using snoc by (metis list.set_map uniq_set)
  with snoc show ?case by (simp add: classGroups_snoc upsert_map_fst uniq_snoc)
qed

lemma classGroups_entry:
  "(k, g) \<in> set (classGroups b xs) \<Longrightarrow>
     keyRecords b k xs \<noteq> [] \<and> g = spec_group b (keyRecords b k xs)"
proof (induction xs arbitrary: k g rule: rev_induct)
  case Nil
  then show ?case by (simp add: classGroups_def)
next
  case (snoc x xs)
  let ?init = "\<lparr>cg_classFormat = cd_cleanedClass x, cg_location = cd_location x,
        cg_day = cd_dayOfWeek x, cg_time = take 5 (cd_classTime x),
        cg_teacher = (if b then cd_teacherName x else []),
        cg_totalParticipants = 0, cg_totalRevenue = 0, cg_count = 0\<rparr>"
  let ?upd = "addToGroup x"
  have dist: "distinct (map fst (classGroups b xs))"
    by (simp add: classGroups_keys uniq_distinct)
  have keys: "fst ` set (classGroups b xs) = groupKey b ` set xs"
    by (metis classGroups_keys list.set_map uniq_set)
  from snoc.prems have mem: "(k, g) \<in> set (upsert (groupKey b x) ?init ?upd (classGroups b xs))"
    by (simp add: classGroups_snoc)
  from upsert_mem[OF mem dist]
  consider (other) "k \<noteq> groupKey b x" "(k, g) \<in> set (classGroups b xs)"
    | (fresh) "k = groupKey b x" "groupKey b x \<notin> fst ` set (classGroups b xs)" "g = ?upd ?init"
    | (old) v where "k = groupKey b x" "(groupKey b x, v) \<in> set (classGroups b xs)" "g = ?upd v"
    by blast
  then show ?case
  proof cases
    case other
    with snoc.IH[of k g] show ?thesis by (simp add: keyRecords_def)
  next
    case fresh
    then have "\<forall>y\<in>set xs. groupKey b y \<noteq> k" unfolding keys by (metis imageI)
    then have "keyRecords b k xs = []" by (simp add: keyRecords_def filter_empty_conv)
    with fresh show ?thesis
      by (simp add: keyRecords_def spec_group_def doubleSum_def addToGroup_def)
  next
    case old
    from snoc.IH[OF old(2)] old(1)
    have ne: "keyRecords b k xs \<noteq> []" and v: "v = spec_group b (keyRecords b k xs)" by simp_all
    from old(1) have "keyRecords b k (xs @ [x]) = keyRecords b k xs @ [x]"
      by (simp add: keyRecords_def)
    with ne v old(3) show ?thesis
      by (cases b) (simp_all add: spec_group_def hd_append doubleSum_def addToGroup_def)
  qed
qed

lemma groupStats_eq:
  "map (\<lambda>(key, g). groupStat g) (classGroups b xs)
     = map (spec_groupStat b xs) (uniq (map (groupKey b) xs))"
proof -
  have "map (\<lambda>(key, g). groupStat g) (classGroups b xs)
          = map (\<lambda>e. spec_groupStat b xs (fst e)) (classGroups b xs)"
  proof (rule map_cong[OF refl])
    fix e assume "e \<in> set (classGroups b xs)"
    then have "(fst e, snd e) \<in> set (classGroups b xs)" by simp
    from classGroups_entry[OF this] have "snd e = spec_group b (keyRecords b (fst e) xs)" by simp
    then show "(case e of (key, g) \<Rightarrow> groupStat g) = spec_groupStat b xs (fst e)"
      by (cases e) (simp add: groupStat_def spec_groupStat_def spec_group_def Let_def)
  qed
  also have "\<dots> = map (spec_groupStat b xs) (map fst (classGroups b xs))" by simp
  finally show ?thesis by (simp only: classGroups_keys)
qed

lemma same_counts_set:
  assumes "\<forall>x. count_list xs x = count_list ys x"
  shows "set xs = set ys"
proof -
  have "x \<in> set xs \<longleftrightarrow> x \<in> set ys" for x
    using assms count_list_0_iff[of xs x] count_list_0_iff[of ys x] by metis
  then show ?thesis by blast
qed

lemma topCompare_ahead: "topCompare a b \<le> 0 \<longleftrightarrow> rankedAhead a b"
  by (auto simp: topCompare_def rankedAhead_def Let_def)

lemma findIndex_None: "findIndex p xs = None \<longleftrightarrow> (\<forall>x\<in>set xs. \<not> p x)"
  by (induction xs) auto

lemma findIndex_append:
  "findIndex p (ps @ qs) =
     (case findIndex p ps of Some i \<Rightarrow> Some i
      | None \<Rightarrow> map_option (\<lambda>i. i + length ps) (findIndex p qs))"
proof (induction ps)
  case Nil
  then show ?case by (simp add: option.map_ident)
next
  case (Cons a ps)
  then show ?case
    by (cases "findIndex p ps") (auto simp: option.map_comp comp_def)
qed

lemma first_here:
  assumes "p x"
  shows "findIndex p (ps @ x # xs) = Some (length ps) \<longleftrightarrow> \<not> list_ex p ps"
proof (cases "findIndex p ps")
  case None
  then have "\<not> list_ex p ps" by (simp add: findIndex_None list_ex_iff)
  with None assms show ?thesis by (simp add: findIndex_append)
next
  case (Some i)
  from findIndex_Some[OF Some] have "i < length ps" "p (ps ! i)" by simp_all
  then have "i \<noteq> length ps" "list_ex p ps" by (auto simp: list_ex_iff)
  with Some show ?thesis by (simp add: findIndex_append)
qed

lemma dedup_by_index:
  "map snd (filter (\<lambda>(index, cls). findIndex (sameSlot cls) (ps @ xs) = Some index)
              (zip [length ps ..< length ps + length xs] xs)) = dedupSlots ps xs"
proof (induction xs arbitrary: ps)
  case Nil
  then show ?case by simp
next
  case (Cons x xs)
  have upt: "[length ps ..< length ps + length (x # xs)]
               = length ps # [Suc (length ps) ..< Suc (length ps) + length xs]"
    by (subst upt_rec) simp
  have here: "findIndex (sameSlot x) (ps @ x # xs) = Some (length ps) \<longleftrightarrow> \<not> list_ex (sameSlot x) ps"
    by (rule first_here) (simp add: sameSlot_def)
  from Cons[of "ps @ [x]"] show ?case
    unfolding upt by (simp add: here)
qed

lemma dedupSlots_append:
  "dedupSlots seen (xs @ ys) = dedupSlots seen xs @ dedupSlots (seen @ xs) ys"
  by (induction xs arbitrary: seen) auto

lemma dedup_defaults: "dedupSlots [] defaultTopClasses = defaultTopClasses"
  by code_simp

lemma seeds_ten: "length defaultTopClasses = 10"
  by (simp add: defaultTopClasses_def getDefaultTopClasses_def)

lemma js_insert_sorted:
  assumes "consistentOn S cmp" "x \<in> S" "set ys \<subseteq> S" "sorted_wrt (\<lambda>a b. cmp a b \<le> 0) ys"
  shows "sorted_wrt (\<lambda>a b. cmp a b \<le> 0) (js_insert cmp x ys)"
  using assms(3,4)
proof (induction ys)
  case Nil
  then show ?case by simp
next
  case (Cons y ys)
  from assms(1) have tr: "\<And>a b c. a \<in> S \<Longrightarrow> b \<in> S \<Longrightarrow> c \<in> S \<Longrightarrow> cmp a b \<le> 0 \<Longrightarrow> cmp b c \<le> 0 \<Longrightarrow> cmp a c \<le> 0"
    and tot: "\<And>a b. a \<in> S \<Longrightarrow> b \<in> S \<Longrightarrow> \<not> cmp a b < 0 \<Longrightarrow> cmp b a \<le> 0"
    unfolding consistentOn_def by blast+
  show ?case
  proof (cases "cmp x y < 0")
    case True
    then have xy: "cmp x y \<le> 0" by simp
    have "cmp x z \<le> 0" if "z \<in> set ys" for z
    proof -
      from Cons.prems that have "cmp y z \<le> 0" "z \<in> S" "y \<in> S" by auto
      with tr[OF assms(2) _ _ xy] show ?thesis by blast
    qed
    with True xy Cons.prems show ?thesis by auto
  next
    case False
    from Cons.prems have "y \<in> S" by simp
    from tot[OF assms(2) this False] have yx: "cmp y x \<le> 0" .
    from Cons have "sorted_wrt (\<lambda>a b. cmp a b \<le> 0) (js_insert cmp x ys)" by simp
    with False yx Cons.prems show ?thesis by (auto simp: js_insert_set)
  qed
qed

lemma js_sort_sorted:
  assumes "consistentOn (set xs) cmp"
  shows "sorted_wrt (\<lambda>a b. cmp a b \<le> 0) (js_sort cmp xs)"
proof -
  have "sorted_wrt (\<lambda>a b. cmp a b \<le> 0) (foldl (\<lambda>acc x. js_insert cmp x acc) [] ys)"
    if "set ys \<subseteq> set xs" for ys
    using that
  proof (induction ys rule: rev_induct)
    case Nil
    then show ?case by simp
  next
    case (snoc y ys)
    then have "sorted_wrt (\<lambda>a b. cmp a b \<le> 0) (foldl (\<lambda>acc x. js_insert cmp x acc) [] ys)"
      and "y \<in> set xs" and "set (foldl (\<lambda>acc x. js_insert cmp x acc) [] ys) \<subseteq> set xs"
      by (auto simp: foldl_js_insert_set)
    with js_insert_sorted[OF assms] show ?case by simp
  qed
  then show ?thesis by (simp add: js_sort_def)
qed


lemma js_insert_count:
  "count_list (js_insert cmp x ys) y = count_list (x # ys) y"
  by (induction ys) auto

lemma js_sort_count: "count_list (js_sort cmp xs) y = count_list xs y"
proof -
  have "count_list (foldl (\<lambda>acc x. js_insert cmp x acc) a xs) y = count_list a y + count_list xs y"
    for a
    by (induction xs arbitrary: a) (auto simp: js_insert_count)
  then show ?thesis by (simp add: js_sort_def)
qed

lemma js_sort_specified: "sortsAsSpecified js_sort"
  unfolding sortsAsSpecified_def by (auto simp: js_sort_count js_sort_sorted)

lemma top_classes_shape:
  "getTopPerformingClasses arraySort csvData minAverage includeTeacher
     = defaultTopClasses
       @ dedupSlots defaultTopClasses (computedTopClasses arraySort csvData minAverage includeTeacher)"
proof -
  let ?computed = "computedTopClasses arraySort csvData minAverage includeTeacher"
  have "getTopPerformingClasses arraySort csvData minAverage includeTeacher
          = dedupSlots [] (defaultTopClasses @ ?computed)"
    using dedup_by_index[of "[]" "defaultTopClasses @ ?computed"]
    by (simp add: getTopPerformingClasses_def Let_def)
  then show ?thesis by (simp add: dedupSlots_append dedup_defaults)
qed

lemma computed_kept:
  "computedTopClasses arraySort csvData minAverage includeTeacher
     = arraySort topCompare (spec_keptGroups csvData minAverage includeTeacher)"
  by (simp add: computedTopClasses_def spec_keptGroups_def groupStats_eq)

lemma kept_code:
  "spec_keptGroups csvData minAverage includeTeacher
     = filter (\<lambda>cls. tp_frequency cls \<ge> 2 \<and> tp_avgParticipants cls \<ge> minAverage)
         (map (\<lambda>(key, g). groupStat g) (classGroups includeTeacher (validClasses csvData)))"
  by (simp add: spec_keptGroups_def groupStats_eq)

lemma repeat_kept:
  "spec_keptGroups repeatRecords 6 True =
     [\<lparr>tp_classFormat = ''Studio Barre 57'', tp_location = ''Kenkere House'', tp_day = ''Tuesday'',
        tp_time = ''09:00'', tp_teacher = ''Reshma Sharma'', tp_avgParticipants = 15 / 2,
        tp_avgRevenue = 75, tp_frequency = 2\<rparr>,
      \<lparr>tp_classFormat = ''Studio FIT'', tp_location = ''Kenkere House'', tp_day = ''Monday'',
        tp_time = ''07:30'', tp_teacher = ''Reshma Sharma'', tp_avgParticipants = 11,
        tp_avgRevenue = 0, tp_frequency = 2\<rparr>]"
  unfolding kept_code by code_simp

text \<open>
  Claim C6, as amended. For every sort that keeps the promise of ECMAScript, the result is
  the ten curated entries, in their order, followed by the computed entries that remain
  when, of the entries of one (format, location, day, time), only the first of the whole
  list is kept. The computed entries are a rearrangement of the kept groups: the groups
  of the records that are not hosted and whose format is allowed at their location, a
  group being the records with one key text (format, location, day, the first five
  characters of the time and, if asked, the teacher, joined by dashes); the averages of a
  group are its sums in doubles divided by its count and rounded to one decimal, and a
  group is kept when it has at least two records and a rounded average of at least
  \<open>minAverage\<close>. When the comparator orders the kept groups consistently, every computed
  entry stands before the later ones in the order of the specification.
\<close>

theorem top_classes_refined:
  assumes "sortsAsSpecified arraySort"
  shows "\<exists>computed.
           (\<forall>cls. count_list computed cls
                   = count_list (spec_keptGroups csvData minAverage includeTeacher) cls)
         \<and> getTopPerformingClasses arraySort csvData minAverage includeTeacher
             = defaultTopClasses @ dedupSlots defaultTopClasses computed
         \<and> length defaultTopClasses = 10
         \<and> (consistentOn (set (spec_keptGroups csvData minAverage includeTeacher)) topCompare
              \<longrightarrow> sorted_wrt rankedAhead computed)"
proof -
  let ?computed = "computedTopClasses arraySort csvData minAverage includeTeacher"
  let ?kept = "spec_keptGroups csvData minAverage includeTeacher"
  from assms have perm: "\<forall>cls. count_list ?computed cls = count_list ?kept cls"
    and ordered: "consistentOn (set ?kept) topCompare
                    \<Longrightarrow> sorted_wrt (\<lambda>a b. topCompare a b \<le> 0) ?computed"
    unfolding sortsAsSpecified_def computed_kept by blast+
  have "sorted_wrt rankedAhead ?computed" if "consistentOn (set ?kept) topCompare"
    using ordered[OF that] by (simp add: topCompare_ahead)
  with perm top_classes_shape[of arraySort csvData minAverage includeTeacher] seeds_ten
  show ?thesis by blast
qed

text \<open>Two groups of two sessions each: the better attended one comes first.\<close>

theorem top_classes_refined_witness:
  "sortsAsSpecified (js_sort :: (TopPerformingClass \<Rightarrow> TopPerformingClass \<Rightarrow> rat) \<Rightarrow> _)
   \<and> consistentOn (set (spec_keptGroups repeatRecords 6 True)) topCompare
   \<and> map (\<lambda>cls. (tp_classFormat cls, tp_avgParticipants cls, tp_frequency cls))
        (spec_keptGroups repeatRecords 6 True)
       = [(''Studio Barre 57'', 15 / 2, 2), (''Studio FIT'', 11, 2)]
   \<and> (\<exists>computed.
         (\<forall>cls. count_list computed cls = count_list (spec_keptGroups repeatRecords 6 True) cls)
       \<and> getTopPerformingClasses js_sort repeatRecords 6 True
           = defaultTopClasses @ dedupSlots defaultTopClasses computed
       \<and> sorted_wrt rankedAhead computed)"
proof -
  have c: "consistentOn (set (spec_keptGroups repeatRecords 6 True)) topCompare"
    unfolding repeat_kept by code_simp
  have k: "map (\<lambda>cls. (tp_classFormat cls, tp_avgParticipants cls, tp_frequency cls))
        (spec_keptGroups repeatRecords 6 True)
       = [(''Studio Barre 57'', 15 / 2, 2), (''Studio FIT'', 11, 2)]"
    by (simp add: repeat_kept)
  from top_classes_refined[OF js_sort_specified, of repeatRecords 6 True] c
  have e: "\<exists>computed.
         (\<forall>cls. count_list computed cls = count_list (spec_keptGroups repeatRecords 6 True) cls)
       \<and> getTopPerformingClasses js_sort repeatRecords 6 True
           = defaultTopClasses @ dedupSlots defaultTopClasses computed
       \<and> sorted_wrt rankedAhead computed"
    by blast
  from js_sort_specified c k e show ?thesis by (intro conjI)
qed

lemma no_order_of_cycle:
  assumes "\<not> P a b" "\<not> P b c" "\<not> P c a" "distinct [a, b, c]"
    and "a \<in> set xs" "b \<in> set xs" "c \<in> set xs"
  shows "\<not> sorted_wrt P xs"
proof
  assume s: "sorted_wrt P xs"
  from assms(5,6) obtain ia where ia: "ia < length xs" "xs ! ia = a" by (auto simp: in_set_conv_nth)
  from assms(6) obtain ib where ib: "ib < length xs" "xs ! ib = b" by (auto simp: in_set_conv_nth)
  from assms(7) obtain ic where ic: "ic < length xs" "xs ! ic = c" by (auto simp: in_set_conv_nth)
  from assms(4) ia ib ic have ne: "ia \<noteq> ib" "ib \<noteq> ic" "ic \<noteq> ia" by auto
  from s ia ib assms(1) have "\<not> ia < ib" by (auto simp: sorted_wrt_iff_nth_less)
  moreover from s ib ic assms(2) have "\<not> ib < ic" by (auto simp: sorted_wrt_iff_nth_less)
  moreover from s ic ia assms(3) have "\<not> ic < ia" by (auto simp: sorted_wrt_iff_nth_less)
  ultimately show False using ne by linarith
qed


lemma cyclic_kept:
  "spec_keptGroups cyclicRecords 6 True =
     [\<lparr>tp_classFormat = ''Studio FIT'', tp_location = ''Kenkere House'', tp_day = ''Monday'',
        tp_time = ''07:30'', tp_teacher = ''Reshma Sharma'', tp_avgParticipants = 9,
        tp_avgRevenue = 0, tp_frequency = 2\<rparr>,
      \<lparr>tp_classFormat = ''Studio Barre 57'', tp_location = ''Kenkere House'', tp_day = ''Tuesday'',
        tp_time = ''09:00'', tp_teacher = ''Reshma Sharma'', tp_avgParticipants = 8,
        tp_avgRevenue = 0, tp_frequency = 3\<rparr>,
      \<lparr>tp_classFormat = ''Studio Mat 57'', tp_location = ''Kenkere House'', tp_day = ''Wednesday'',
        tp_time = ''18:00'', tp_teacher = ''Reshma Sharma'', tp_avgParticipants = 15 / 2,
        tp_avgRevenue = 0, tp_frequency = 4\<rparr>]"
  unfolding kept_code by code_simp

lemma hosted_computed: "computedTopClasses js_sort hostedPair 6 True = []"
  by code_simp

text \<open>
  Claim C6 as stated fails twice. Two hosted sessions with 20 participants each form a
  group of two with average 20, yet only the ten curated entries are returned. And three
  kept groups with averages 9, 8 and 7.5 and frequencies 2, 3 and 4 rank in a circle (8
  before 9 and 7.5 before 8 by frequency, 9 before 7.5 by average), so that no
  arrangement of them, whatever the sort, is in the order of the specification.
\<close>

theorem unranked_groups_counterexample:
  "getTopPerformingClasses js_sort hostedPair 6 True = defaultTopClasses
   \<and> length (keyRecords True (groupKey True (hd hostedPair)) hostedPair) = 2
   \<and> sum_list (map cd_participants hostedPair) / of_nat (length hostedPair) = 20
   \<and> isHostedClass (cd_cleanedClass (hd hostedPair))
   \<and> map (\<lambda>cls. (tp_classFormat cls, tp_avgParticipants cls, tp_frequency cls))
        (spec_keptGroups cyclicRecords 6 True)
       = [(''Studio FIT'', 9, 2), (''Studio Barre 57'', 8, 3), (''Studio Mat 57'', 15 / 2, 4)]
   \<and> \<not> (\<exists>xs. (\<forall>cls. count_list xs cls = count_list (spec_keptGroups cyclicRecords 6 True) cls)
              \<and> sorted_wrt rankedAhead xs)"
proof -
  let ?a = "\<lparr>tp_classFormat = ''Studio FIT'', tp_location = ''Kenkere House'', tp_day = ''Monday'',
        tp_time = ''07:30'', tp_teacher = ''Reshma Sharma'', tp_avgParticipants = 9,
        tp_avgRevenue = 0, tp_frequency = 2\<rparr>"
  let ?b = "\<lparr>tp_classFormat = ''Studio Barre 57'', tp_location = ''Kenkere House'', tp_day = ''Tuesday'',
        tp_time = ''09:00'', tp_teacher = ''Reshma Sharma'', tp_avgParticipants = 8,
        tp_avgRevenue = 0, tp_frequency = 3\<rparr>"
  let ?c = "\<lparr>tp_classFormat = ''Studio Mat 57'', tp_location = ''Kenkere House'', tp_day = ''Wednesday'',
        tp_time = ''18:00'', tp_teacher = ''Reshma Sharma'', tp_avgParticipants = 15 / 2,
        tp_avgRevenue = 0, tp_frequency = 4\<rparr>"
  have h1: "getTopPerformingClasses js_sort hostedPair 6 True = defaultTopClasses"
    by (simp add: top_classes_shape hosted_computed)
  have h2: "length (keyRecords True (groupKey True (hd hostedPair)) hostedPair) = 2
   \<and> sum_list (map cd_participants hostedPair) / of_nat (length hostedPair) = 20
   \<and> isHostedClass (cd_cleanedClass (hd hostedPair))"
    by code_simp
  have k: "map (\<lambda>cls. (tp_classFormat cls, tp_avgParticipants cls, tp_frequency cls))
        (spec_keptGroups cyclicRecords 6 True)
       = [(''Studio FIT'', 9, 2), (''Studio Barre 57'', 8, 3), (''Studio Mat 57'', 15 / 2, 4)]"
    by (simp add: cyclic_kept)
  have r: "\<not> rankedAhead ?a ?b" "\<not> rankedAhead ?b ?c" "\<not> rankedAhead ?c ?a"
    by code_simp+
  have d: "distinct [?a, ?b, ?c]" by simp
  have "\<not> sorted_wrt rankedAhead xs"
    if "\<forall>cls. count_list xs cls = count_list (spec_keptGroups cyclicRecords 6 True) cls" for xs
  proof -
    from same_counts_set[OF that] have "set xs = {?a, ?b, ?c}" by (simp add: cyclic_kept)
    then have "?a \<in> set xs" "?b \<in> set xs" "?c \<in> set xs" by simp_all
    from no_order_of_cycle[OF r d this] show ?thesis .
  qed
  with h1 h2 k show ?thesis by blast
qed


end
